theory Spec2Isabelle
  imports Main "HOL-Library.Sublist"
begin

section \<open>Python values, errors and containers\<close>

text \<open>
  The development embeds \<^verbatim>\<open>brainstate/transform/_make_jaxpr.py\<close>: the class
  \<^verbatim>\<open>StatefulFunction\<close> with its four cache tables, the cache-key builder, the trace
  driver \<^verbatim>\<open>make_jaxpr\<close> and the replayer \<^verbatim>\<open>jaxpr_call\<close> /
  \<^verbatim>\<open>jaxpr_call_auto\<close>.

  Scope of the model. Array values are scalars of type \<open>int\<close> (floating point is not
  modelled); every positional argument and every state value is one leaf; keyword arguments
  are absent (\<^verbatim>\<open>kwargs = {}\<close>). Exceptions are the subclasses of Python's
  \<^verbatim>\<open>Exception\<close>; the system-exiting \<^verbatim>\<open>BaseException\<close>s (KeyboardInterrupt,
  SystemExit), which \<^verbatim>\<open>except Exception\<close> lets through, are outside the model, and so
  are re-entrant calls of the wrapper from inside the traced function.
\<close>

type_synonym cell = nat

datatype error =
    ValueError_not_called
  | ValueError_state_returned cell
  | ValueError_invalid_cache_type
  | ValueError_tree_mismatch
  | TypeError_staticmethod
  | TypeError_not_callable
  | TypeError_generator
  | TypeError_invalid_jax_type
  | UnexpectedTracerError
  | KeyError
  | IndexError
  | NameError
  | AssertionError
  | UserException nat

text \<open>Indexing a tuple, \<^verbatim>\<open>args[i]\<close>: a negative index counts from the end, an index
  out of range raises IndexError.\<close>

definition py_index :: "'a list \<Rightarrow> int \<Rightarrow> error + 'a" where
  "py_index xs i =
     (if 0 \<le> i \<and> i < int (length xs) then Inr (xs ! nat i)
      else if i < 0 \<and> - int (length xs) \<le> i then Inr (xs ! nat (int (length xs) + i))
      else Inl IndexError)"

text \<open>A pytree: a leaf, or a tuple/list container of pytrees (\<^verbatim>\<open>None\<close> is the container
  without children). \<^verbatim>\<open>jax.tree.leaves\<close>, \<^verbatim>\<open>jax.tree.structure\<close> and
  \<^verbatim>\<open>treedef.unflatten\<close> follow.\<close>

datatype 'a pytree = Leaf 'a | Node "'a pytree list"

fun leaves :: "'a pytree \<Rightarrow> 'a list" where
  "leaves (Leaf x) = [x]"
| "leaves (Node ts) = concat (map leaves ts)"

fun tree_structure :: "'a pytree \<Rightarrow> unit pytree" where
  "tree_structure (Leaf x) = Leaf ()"
| "tree_structure (Node ts) = Node (map tree_structure ts)"

fun unflatten_from :: "unit pytree \<Rightarrow> 'a list \<Rightarrow> ('a pytree \<times> 'a list) option"
  and unflatten_list :: "unit pytree list \<Rightarrow> 'a list \<Rightarrow> ('a pytree list \<times> 'a list) option" where
  "unflatten_from (Leaf u) [] = None"
| "unflatten_from (Leaf u) (x # xs) = Some (Leaf x, xs)"
| "unflatten_from (Node ts) xs =
     (case unflatten_list ts xs of None \<Rightarrow> None | Some (ts', r) \<Rightarrow> Some (Node ts', r))"
| "unflatten_list [] xs = Some ([], xs)"
| "unflatten_list (t # ts) xs =
     (case unflatten_from t xs of
        None \<Rightarrow> None
      | Some (t', r) \<Rightarrow>
          (case unflatten_list ts r of None \<Rightarrow> None | Some (ts', r') \<Rightarrow> Some (t' # ts', r')))"

definition unflatten :: "unit pytree \<Rightarrow> 'a list \<Rightarrow> error + 'a pytree" where
  "unflatten td xs =
     (case unflatten_from td xs of
        Some (t, []) \<Rightarrow> Inr t
      | _ \<Rightarrow> Inl ValueError_tree_mismatch)"

section \<open>The cache-key builder\<close>

text \<open>Abstract values. Every value of the model is a scalar, so
  \<^verbatim>\<open>wrapped_abstractify\<close> maps each of them to the one scalar descriptor.\<close>

datatype aval = ShapedArray

definition wrapped_abstractify :: "int \<Rightarrow> aval" where
  "wrapped_abstractify x = ShapedArray"

datatype cache_key =
    StaticKey "int list"
  | JitKey "int list" "aval list" "aval list"

text \<open>\<^verbatim>\<open>tuple(args[i] for i in self.static_argnums if i < num_arg)\<close>: the generator
  walks \<^verbatim>\<open>static_argnums\<close> in its own order, skips an index that is not below
  \<^verbatim>\<open>len(args)\<close>, and indexes the tuple (which raises for \<open>i < - len(args)\<close>).\<close>

fun static_values :: "int list \<Rightarrow> 'a list \<Rightarrow> error + 'a list" where
  "static_values [] args = Inr []"
| "static_values (i # ns) args =
     (if i < int (length args)
      then (case py_index args i of
              Inl e \<Rightarrow> Inl e
            | Inr v \<Rightarrow> (case static_values ns args of
                          Inl e \<Rightarrow> Inl e
                        | Inr vs \<Rightarrow> Inr (v # vs)))
      else static_values ns args)"

text \<open>The \<^verbatim>\<open>'jit'\<close> branch enumerates the arguments by position and sorts each into the
  static or the dynamic list by \<^verbatim>\<open>i in self.static_argnums\<close>.\<close>

definition static_by_position :: "int list \<Rightarrow> 'a list \<Rightarrow> 'a list" where
  "static_by_position ns args =
     map (\<lambda>i. args ! i) (filter (\<lambda>i. int i \<in> set ns) [0..<length args])"

definition dynamic_by_position :: "int list \<Rightarrow> 'a list \<Rightarrow> 'a list" where
  "dynamic_by_position ns args =
     map (\<lambda>i. args ! i) (filter (\<lambda>i. int i \<notin> set ns) [0..<length args])"

definition get_arg_cache_key :: "string option \<Rightarrow> int list \<Rightarrow> int list \<Rightarrow> error + cache_key" where
  "get_arg_cache_key ctype ns args =
     (if ctype = Some ''jit''
      then Inr (JitKey (static_by_position ns args)
                  (map wrapped_abstractify (dynamic_by_position ns args)) [])
      else if ctype = None
      then (case static_values ns args of Inl e \<Rightarrow> Inl e | Inr vs \<Rightarrow> Inr (StaticKey vs))
      else Inl ValueError_invalid_cache_type)"

section \<open>Traced values and the trace artifact\<close>

text \<open>
  The trace compiler (JAX) is an external library; what the code asks of it is modelled
  after the trace-compiler contract of the specification (section 6) and the calls in
  \<^verbatim>\<open>_make_jaxpr.py\<close>. A jaxpr expression is built over the input variables of the
  artifact; constants of the closed jaxpr are literals. A Python value is a concrete array
  or a tracer standing for an expression. A primitive applied to concrete values computes;
  applied to a tracer it extends the expression.
\<close>

datatype jexpr = Var nat | Lit int | Prim "int \<Rightarrow> int \<Rightarrow> int" jexpr jexpr

datatype pyval = Concrete int | Tracer jexpr

fun to_jexpr :: "pyval \<Rightarrow> jexpr" where
  "to_jexpr (Concrete a) = Lit a"
| "to_jexpr (Tracer e) = e"

fun bind_prim :: "(int \<Rightarrow> int \<Rightarrow> int) \<Rightarrow> pyval \<Rightarrow> pyval \<Rightarrow> pyval" where
  "bind_prim f (Concrete a) (Concrete b) = Concrete (f a b)"
| "bind_prim f x y = Tracer (Prim f (to_jexpr x) (to_jexpr y))"

fun eval_jexpr :: "int list \<Rightarrow> jexpr \<Rightarrow> error + int" where
  "eval_jexpr env (Var i) = (if i < length env then Inr (env ! i) else Inl NameError)"
| "eval_jexpr env (Lit a) = Inr a"
| "eval_jexpr env (Prim f x y) =
     (case eval_jexpr env x of
        Inl e \<Rightarrow> Inl e
      | Inr a \<Rightarrow> (case eval_jexpr env y of Inl e \<Rightarrow> Inl e | Inr b \<Rightarrow> Inr (f a b)))"

fun eval_jexprs :: "int list \<Rightarrow> jexpr list \<Rightarrow> error + int list" where
  "eval_jexprs env [] = Inr []"
| "eval_jexprs env (x # xs) =
     (case eval_jexpr env x of
        Inl e \<Rightarrow> Inl e
      | Inr a \<Rightarrow> (case eval_jexprs env xs of Inl e \<Rightarrow> Inl e | Inr bs \<Rightarrow> Inr (a # bs)))"

record closed_jaxpr =
  n_invars :: nat
  outvars :: "jexpr list"

text \<open>\<^verbatim>\<open>jax.core.eval_jaxpr\<close>: binds the inputs to the input variables (their numbers
  must agree) and evaluates the outputs.\<close>

definition eval_jaxpr :: "closed_jaxpr \<Rightarrow> int list \<Rightarrow> error + int list" where
  "eval_jaxpr j inputs =
     (if length inputs \<noteq> n_invars j then Inl ValueError_tree_mismatch
      else eval_jexprs inputs (outvars j))"

text \<open>\<^verbatim>\<open>_new_arg(frame, trace, aval)\<close>: a fresh tracer whose variable is appended to
  \<^verbatim>\<open>frame.invars\<close>; the frame is the number of its input variables.\<close>

definition new_arg :: "nat \<Rightarrow> pyval \<times> nat" where
  "new_arg frame = (Tracer (Var frame), Suc frame)"

section \<open>State cells and the state access tracer\<close>

text \<open>
  \<^verbatim>\<open>State\<close> and \<^verbatim>\<open>StateTrace\<close> live in \<^verbatim>\<open>brainstate/_state.py\<close>, which is not
  among the sources; the definitions of this section follow the specification (sections 3
  and 4.1) and the way \<^verbatim>\<open>_make_jaxpr.py\<close> uses them (\<^verbatim>\<open>.states\<close>, \<^verbatim>\<open>.types\<close>,
  \<^verbatim>\<open>collect_values\<close>, \<^verbatim>\<open>recovery_original_values\<close>, \<^verbatim>\<open>set_new_arg\<close>).
\<close>

record state_trace =
  states :: "cell list"
  types :: "string list"
  original_values :: "pyval list"

text \<open>The interpreter state while a function runs: the values of the state cells, the
  number of times the body of the wrapped function was entered, whether a tracer is active
  and its records, and the input variables of the jaxpr frame under construction.\<close>

record run_state =
  heap :: "cell \<Rightarrow> pyval"
  executions :: nat
  tracing :: bool
  trace :: state_trace
  frame_invars :: nat

text \<open>\<^verbatim>\<open>_init_trace_and_newarg\<close>: a new tracer without records, its
  \<^verbatim>\<open>new_arg\<close> bound to the current frame.\<close>

definition init_trace_and_newarg :: state_trace where
  "init_trace_and_newarg = \<lparr>states = [], types = [], original_values = []\<rparr>"

text \<open>Modelled from the spec: \<^verbatim>\<open>StateTrace\<close> (missing with \<^verbatim>\<open>_state.py\<close>), its
  Access Record of a cell seen for the first time. The record is appended (first-seen
  order), tagged with the category of the access, snapshots the value the cell held before
  tracing, and the cell receives one additional symbolic input of the artifact (section
  4.3: one synthetic input per accessed state cell, in Access Record order), made by
  \<^verbatim>\<open>_new_arg\<close>.\<close>

definition create_record :: "string \<Rightarrow> cell \<Rightarrow> run_state \<Rightarrow> run_state" where
  "create_record tag c s =
     (let (v, frame) = new_arg (frame_invars s)
      in s\<lparr>trace := (trace s)\<lparr>states := states (trace s) @ [c],
                                types := types (trace s) @ [tag],
                                original_values := original_values (trace s) @ [heap s c]\<rparr>,
            heap := (heap s)(c := v),
            frame_invars := frame\<rparr>)"

text \<open>Modelled from the spec: \<^verbatim>\<open>StateTrace\<close> (missing with \<^verbatim>\<open>_state.py\<close>), what it
  does on each State Cell read. If the cell has no Access Record in this trace, one tagged
  read is created; otherwise the existing record is reused. Outside a trace nothing is
  recorded.\<close>

definition on_read :: "cell \<Rightarrow> run_state \<Rightarrow> run_state" where
  "on_read c s =
     (if \<not> tracing s \<or> c \<in> set (states (trace s)) then s
      else create_record ''read'' c s)"

text \<open>Modelled from the spec: \<^verbatim>\<open>StateTrace\<close> (missing with \<^verbatim>\<open>_state.py\<close>), what it
  does on each State Cell write. If the cell has no record, one tagged write is created;
  an existing record is upgraded, not duplicated. The tags are the two strings
  \<^verbatim>\<open>_make_jaxpr.py\<close> compares with, \<^verbatim>\<open>'read'\<close> and \<^verbatim>\<open>'write'\<close>: the upgraded
  record (the read-write record of the specification) carries \<^verbatim>\<open>'write'\<close>.\<close>

definition on_write :: "cell \<Rightarrow> run_state \<Rightarrow> run_state" where
  "on_write c s =
     (if \<not> tracing s then s
      else if c \<in> set (states (trace s))
      then s\<lparr>trace := (trace s)\<lparr>types :=
                 map (\<lambda>(st, ty). if st = c then ''write'' else ty)
                   (zip (states (trace s)) (types (trace s)))\<rparr>\<rparr>
      else create_record ''write'' c s)"

text \<open>Modelled from the spec: \<^verbatim>\<open>State.value\<close> (missing with \<^verbatim>\<open>_state.py\<close>), the get
  and the set of the State Cell contract. Both are intercepted by the active tracer; the
  assignment stores the value in the cell.\<close>

definition state_value_get :: "cell \<Rightarrow> run_state \<Rightarrow> pyval \<times> run_state" where
  "state_value_get c s = (let s' = on_read c s in (heap s' c, s'))"

definition state_value_set :: "cell \<Rightarrow> pyval \<Rightarrow> run_state \<Rightarrow> run_state" where
  "state_value_set c v s = (let s' = on_write c s in s'\<lparr>heap := (heap s')(c := v)\<rparr>)"

text \<open>Modelled from the spec: \<^verbatim>\<open>StateTrace.collect_values\<close> and
  \<^verbatim>\<open>StateTrace.recovery_original_values\<close> (missing with \<^verbatim>\<open>_state.py\<close>).
  \<^verbatim>\<open>collect_values(*categories)\<close> returns the current value of every recorded cell
  whose tag is among the categories, in record order (the value-tree check cannot fail on
  scalars). \<^verbatim>\<open>recovery_original_values()\<close> restores every touched cell to the value it
  held immediately before tracing began.\<close>

definition collect_values :: "string list \<Rightarrow> state_trace \<Rightarrow> (cell \<Rightarrow> pyval) \<Rightarrow> pyval list" where
  "collect_values categories tr h =
     map (\<lambda>(st, ty). h st) (filter (\<lambda>(st, ty). ty \<in> set categories) (zip (states tr) (types tr)))"

definition recovery_original_values :: "state_trace \<Rightarrow> (cell \<Rightarrow> pyval) \<Rightarrow> (cell \<Rightarrow> pyval)" where
  "recovery_original_values tr h =
     fold (\<lambda>(st, v) h'. h'(st := v)) (zip (states tr) (original_values tr)) h"

section \<open>The wrapped function\<close>

text \<open>
  The function given to the wrapper is an argument of the code. It is a Python object of
  one of four kinds; a function's body is straight-line code over its positional
  arguments, its local variables and the state cells (the code a symbolic trace can
  follow), and its result is a pytree whose leaves are array expressions or State objects.
\<close>

datatype uexp = UArg nat | ULit int | ULocal nat | UOp "int \<Rightarrow> int \<Rightarrow> int" uexp uexp

datatype stmt = SRead cell | SWrite cell uexp | SRaise nat

datatype rleaf = RVal uexp | RState cell

datatype leaf = Arr pyval | StateLeaf cell | Opaque

datatype target_kind = PlainFunction | GeneratorFunction | StaticMethod | NotCallable

record target =
  kind :: target_kind
  body :: "stmt list"
  result :: "rleaf pytree"

fun eval_uexp :: "pyval list \<Rightarrow> pyval list \<Rightarrow> uexp \<Rightarrow> error + pyval" where
  "eval_uexp args ls (UArg i) = (if i < length args then Inr (args ! i) else Inl NameError)"
| "eval_uexp args ls (ULit a) = Inr (Concrete a)"
| "eval_uexp args ls (ULocal i) = (if i < length ls then Inr (ls ! i) else Inl NameError)"
| "eval_uexp args ls (UOp f x y) =
     (case eval_uexp args ls x of
        Inl e \<Rightarrow> Inl e
      | Inr a \<Rightarrow> (case eval_uexp args ls y of Inl e \<Rightarrow> Inl e | Inr b \<Rightarrow> Inr (bind_prim f a b)))"

text \<open>\<^verbatim>\<open>v = s.value\<close> binds the next local variable, \<^verbatim>\<open>s.value = e\<close> assigns,
  \<^verbatim>\<open>raise\<close> leaves the function with the state as it is.\<close>

fun exec_body :: "pyval list \<Rightarrow> stmt list \<Rightarrow> pyval list \<Rightarrow> run_state \<Rightarrow> (error + pyval list) \<times> run_state" where
  "exec_body args [] ls s = (Inr ls, s)"
| "exec_body args (SRead c # rest) ls s =
     (let (v, s') = state_value_get c s in exec_body args rest (ls @ [v]) s')"
| "exec_body args (SWrite c e # rest) ls s =
     (case eval_uexp args ls e of
        Inl err \<Rightarrow> (Inl err, s)
      | Inr v \<Rightarrow> exec_body args rest ls (state_value_set c v s))"
| "exec_body args (SRaise n # rest) ls s = (Inl (UserException n), s)"

fun eval_result :: "pyval list \<Rightarrow> pyval list \<Rightarrow> rleaf pytree \<Rightarrow> error + leaf pytree"
  and eval_results :: "pyval list \<Rightarrow> pyval list \<Rightarrow> rleaf pytree list \<Rightarrow> error + leaf pytree list" where
  "eval_result args ls (Leaf (RVal e)) =
     (case eval_uexp args ls e of Inl err \<Rightarrow> Inl err | Inr v \<Rightarrow> Inr (Leaf (Arr v)))"
| "eval_result args ls (Leaf (RState c)) = Inr (Leaf (StateLeaf c))"
| "eval_result args ls (Node ts) =
     (case eval_results args ls ts of Inl err \<Rightarrow> Inl err | Inr ts' \<Rightarrow> Inr (Node ts'))"
| "eval_results args ls [] = Inr []"
| "eval_results args ls (t # ts) =
     (case eval_result args ls t of
        Inl err \<Rightarrow> Inl err
      | Inr t' \<Rightarrow> (case eval_results args ls ts of Inl err \<Rightarrow> Inl err | Inr ts' \<Rightarrow> Inr (t' # ts')))"

text \<open>The call \<^verbatim>\<open>self.fun(*args)\<close>. An object that is not callable raises TypeError; a
  generator function returns a generator object without running its body; a staticmethod
  object is callable (Python 3.10 and later) and runs the function it wraps.\<close>

definition call_target :: "target \<Rightarrow> pyval list \<Rightarrow> run_state \<Rightarrow> (error + leaf pytree) \<times> run_state" where
  "call_target tgt args s =
     (case kind tgt of
        NotCallable \<Rightarrow> (Inl TypeError_not_callable, s)
      | GeneratorFunction \<Rightarrow> (Inr (Leaf Opaque), s)
      | _ \<Rightarrow>
          (case exec_body args (body tgt) [] (s\<lparr>executions := Suc (executions s)\<rparr>) of
             (Inl e, s') \<Rightarrow> (Inl e, s')
           | (Inr ls, s') \<Rightarrow>
               (case eval_result args ls (result tgt) of
                  Inl e \<Rightarrow> (Inl e, s')
                | Inr out \<Rightarrow> (Inr out, s'))))"

section \<open>The wrapper and its cache tables\<close>

text \<open>\<^verbatim>\<open>StatefulFunction\<close>: the wrapped function, the static argument positions, the
  cache-key policy and the four tables \<^verbatim>\<open>_jaxpr\<close>, \<^verbatim>\<open>_out_shapes\<close>,
  \<^verbatim>\<open>_jaxpr_out_tree\<close> and \<^verbatim>\<open>_state_trace\<close>. The state cells are owned by the
  caller: the world outside the wrapper holds their values and counts how often the body
  of the wrapped function has run.\<close>

datatype shape_dtype = ShapeDtypeStruct

record stateful_function =
  wrapped_fun :: target
  static_argnums :: "int list"
  cache_type :: "string option"
  jaxpr_tbl :: "cache_key \<rightharpoonup> closed_jaxpr"
  out_shapes :: "cache_key \<rightharpoonup> shape_dtype pytree"
  jaxpr_out_tree :: "cache_key \<rightharpoonup> unit pytree"
  state_trace_tbl :: "cache_key \<rightharpoonup> state_trace"

record world =
  cells :: "cell \<Rightarrow> pyval"
  fun_calls :: nat

text \<open>\<^verbatim>\<open>__init__\<close>: \<^verbatim>\<open>assert cache_type in [None, 'jit']\<close>, then four empty tables.\<close>

definition init :: "target \<Rightarrow> int list \<Rightarrow> string option \<Rightarrow> error + stateful_function" where
  "init f ns ctype =
     (if ctype \<noteq> None \<and> ctype \<noteq> Some ''jit'' then Inl AssertionError
      else Inr \<lparr>wrapped_fun = f, static_argnums = ns, cache_type = ctype,
                jaxpr_tbl = Map.empty, out_shapes = Map.empty,
                jaxpr_out_tree = Map.empty, state_trace_tbl = Map.empty\<rparr>)"

definition get_jaxpr :: "stateful_function \<Rightarrow> cache_key \<Rightarrow> error + closed_jaxpr" where
  "get_jaxpr sf key =
     (case jaxpr_tbl sf key of None \<Rightarrow> Inl ValueError_not_called | Some j \<Rightarrow> Inr j)"

definition get_out_shapes :: "stateful_function \<Rightarrow> cache_key \<Rightarrow> error + shape_dtype pytree" where
  "get_out_shapes sf key =
     (case out_shapes sf key of None \<Rightarrow> Inl ValueError_not_called | Some t \<Rightarrow> Inr t)"

definition get_out_treedef :: "stateful_function \<Rightarrow> cache_key \<Rightarrow> error + unit pytree" where
  "get_out_treedef sf key =
     (case jaxpr_out_tree sf key of None \<Rightarrow> Inl ValueError_not_called | Some t \<Rightarrow> Inr t)"

definition get_states :: "stateful_function \<Rightarrow> cache_key \<Rightarrow> error + cell list" where
  "get_states sf key =
     (case state_trace_tbl sf key of None \<Rightarrow> Inl ValueError_not_called | Some tr \<Rightarrow> Inr (states tr))"

text \<open>\<^verbatim>\<open>get_read_states\<close> and \<^verbatim>\<open>get_write_states\<close> subscript the table directly:
  \<^verbatim>\<open>self._state_trace[cache_key]\<close> raises KeyError for a key that is not there.\<close>

definition states_of_type :: "string \<Rightarrow> state_trace \<Rightarrow> cell list" where
  "states_of_type tag tr =
     map fst (filter (\<lambda>(st, ty). ty = tag) (zip (states tr) (types tr)))"

definition get_read_states :: "stateful_function \<Rightarrow> cache_key \<Rightarrow> error + cell list" where
  "get_read_states sf key =
     (case state_trace_tbl sf key of
        None \<Rightarrow> Inl KeyError
      | Some tr \<Rightarrow> Inr (states_of_type ''read'' tr))"

definition get_write_states :: "stateful_function \<Rightarrow> cache_key \<Rightarrow> error + cell list" where
  "get_write_states sf key =
     (case state_trace_tbl sf key of
        None \<Rightarrow> Inl KeyError
      | Some tr \<Rightarrow> Inr (states_of_type ''write'' tr))"

definition clear_cache :: "stateful_function \<Rightarrow> stateful_function" where
  "clear_cache sf =
     sf\<lparr>jaxpr_tbl := Map.empty, out_shapes := Map.empty,
        jaxpr_out_tree := Map.empty, state_trace_tbl := Map.empty\<rparr>"

section \<open>The trace driver\<close>

fun returned_state :: "leaf list \<Rightarrow> cell option" where
  "returned_state [] = None"
| "returned_state (StateLeaf c # ls) = Some c"
| "returned_state (l # ls) = returned_state ls"

text \<open>Entering \<^verbatim>\<open>with _state_trace:\<close> with the new tracer of
  \<^verbatim>\<open>_init_trace_and_newarg\<close>, on the frame of the jaxpr under construction.\<close>

definition enter_trace :: "world \<Rightarrow> nat \<Rightarrow> run_state" where
  "enter_trace w frame =
     \<lparr>heap = cells w, executions = fun_calls w, tracing = True,
      trace = init_trace_and_newarg, frame_invars = frame\<rparr>"

text \<open>\<^verbatim>\<open>_wrapped_fun_to_eval(self, cache_key, *args)\<close>, run on the frame of the jaxpr
  under construction. The new tracer is stored in \<^verbatim>\<open>self._state_trace[cache_key]\<close>
  before the function runs; the table holds that object, so the entry shows the records
  as they stand when the method is left. The values are collected inside the
  \<^verbatim>\<open>with\<close> block, the original values are recovered after it, and the leaves of the
  result are then searched for a State. An exception raised inside the \<^verbatim>\<open>with\<close>
  block leaves the method before \<^verbatim>\<open>recovery_original_values()\<close>.\<close>

definition wrapped_fun_to_eval ::
  "cache_key \<Rightarrow> pyval list \<Rightarrow> nat \<Rightarrow> stateful_function \<times> world \<Rightarrow>
     (error + leaf pytree \<times> pyval list) \<times> nat \<times> stateful_function \<times> world" where
  "wrapped_fun_to_eval key args frame st =
     (let sf = fst st; w = snd st;
          (r, s1) = call_target (wrapped_fun sf) args (enter_trace w frame);
          sf1 = sf\<lparr>state_trace_tbl := (state_trace_tbl sf)(key \<mapsto> trace s1)\<rparr>
      in case r of
           Inl e \<Rightarrow> (Inl e, frame_invars s1, sf1, \<lparr>cells = heap s1, fun_calls = executions s1\<rparr>)
         | Inr out \<Rightarrow>
             (let state_values = collect_values [''read'', ''write''] (trace s1) (heap s1);
                  w1 = \<lparr>cells = recovery_original_values (trace s1) (heap s1),
                        fun_calls = executions s1\<rparr>
              in case returned_state (leaves out) of
                   Some c \<Rightarrow> (Inl (ValueError_state_returned c), frame_invars s1, sf1, w1)
                 | None \<Rightarrow> (Inr (out, state_values), frame_invars s1, sf1, w1)))"

text \<open>What \<^verbatim>\<open>_check_callable\<close> asks of a Python object.\<close>

record pyobj =
  is_staticmethod :: bool
  is_callable :: bool
  is_generatorfunction :: bool

definition check_callable :: "pyobj \<Rightarrow> error option" where
  "check_callable obj =
     (if is_staticmethod obj then Some TypeError_staticmethod
      else if \<not> is_callable obj then Some TypeError_not_callable
      else if is_generatorfunction obj then Some TypeError_generator
      else None)"

definition obj_of_kind :: "target_kind \<Rightarrow> pyobj" where
  "obj_of_kind k =
     (case k of
        PlainFunction \<Rightarrow> \<lparr>is_staticmethod = False, is_callable = True, is_generatorfunction = False\<rparr>
      | GeneratorFunction \<Rightarrow> \<lparr>is_staticmethod = False, is_callable = True, is_generatorfunction = True\<rparr>
      | StaticMethod \<Rightarrow> \<lparr>is_staticmethod = True, is_callable = True, is_generatorfunction = False\<rparr>
      | NotCallable \<Rightarrow> \<lparr>is_staticmethod = False, is_callable = False, is_generatorfunction = False\<rparr>)"

text \<open>\<^verbatim>\<open>functools.partial(self._wrapped_fun_to_eval, cache_key)\<close>, the object
  \<^verbatim>\<open>make_jaxpr\<close> hands to \<^verbatim>\<open>_make_jaxpr\<close>: a partial of a bound method of the
  wrapper, callable, no staticmethod and no generator function, whatever
  \<^verbatim>\<open>self.fun\<close> is.\<close>

definition partial_wrapped :: pyobj where
  "partial_wrapped = \<lparr>is_staticmethod = False, is_callable = True, is_generatorfunction = False\<rparr>"

text \<open>The arguments as the traced function receives them: a static position keeps its
  value, a dynamic position holds the tracer of the next input variable.\<close>

fun trace_args_from :: "nat \<Rightarrow> nat \<Rightarrow> int list \<Rightarrow> int list \<Rightarrow> pyval list" where
  "trace_args_from i k ns [] = []"
| "trace_args_from i k ns (a # as) =
     (if int i \<in> set ns then Concrete a # trace_args_from (Suc i) k ns as
      else Tracer (Var k) # trace_args_from (Suc i) (Suc k) ns as)"

definition trace_args :: "int list \<Rightarrow> int list \<Rightarrow> pyval list" where
  "trace_args ns args = trace_args_from 0 0 ns args"

text \<open>The flat outputs of the traced function become the outputs of the jaxpr; a leaf
  that is no array (a State, a generator object) is no valid JAX type.\<close>

fun out_exprs :: "leaf list \<Rightarrow> error + jexpr list" where
  "out_exprs [] = Inr []"
| "out_exprs (Arr v # ls) =
     (case out_exprs ls of Inl e \<Rightarrow> Inl e | Inr es \<Rightarrow> Inr (to_jexpr v # es))"
| "out_exprs (l # ls) = Inl TypeError_invalid_jax_type"

text \<open>\<^verbatim>\<open>_make_jaxpr(fun, static_argnums, return_shape=True)(*args)\<close>:
  \<^verbatim>\<open>_check_callable(fun)\<close>, then the trace of \<^verbatim>\<open>fun\<close> on one input variable per
  dynamic argument. \<^verbatim>\<open>fun\<close> is given by the object the check sees and by what calling
  it does to the caller's state; it returns the pair of its result and the state values,
  which is flattened into the outputs.\<close>

definition make_jaxpr_private ::
  "pyobj \<Rightarrow> (pyval list \<Rightarrow> nat \<Rightarrow> 'st \<Rightarrow> (error + leaf pytree \<times> pyval list) \<times> nat \<times> 'st) \<Rightarrow>
     int list \<Rightarrow> int list \<Rightarrow> 'st \<Rightarrow> (error + closed_jaxpr \<times> shape_dtype pytree) \<times> 'st" where
  "make_jaxpr_private obj f ns args st =
     (case check_callable obj of
        Some e \<Rightarrow> (Inl e, st)
      | None \<Rightarrow>
          (let (r, frame, st') = f (trace_args ns args) (length (dynamic_by_position ns args)) st
           in case r of
                Inl e \<Rightarrow> (Inl e, st')
              | Inr (out, state_values) \<Rightarrow>
                  (case out_exprs (leaves out @ map Arr state_values) of
                     Inl e \<Rightarrow> (Inl e, st')
                   | Inr es \<Rightarrow>
                       (Inr (\<lparr>n_invars = frame, outvars = es\<rparr>,
                             Node [map_pytree (\<lambda>l. ShapeDtypeStruct) out,
                                   Node (map (\<lambda>v. Leaf ShapeDtypeStruct) state_values)]),
                        st'))))"

text \<open>\<^verbatim>\<open>StatefulFunction.make_jaxpr(*args)\<close>: nothing is done for a key of
  \<^verbatim>\<open>_state_trace\<close>; otherwise the trace runs inside \<^verbatim>\<open>try\<close>, the three other
  tables are written after it, and \<^verbatim>\<open>except Exception\<close> pops the key from
  \<^verbatim>\<open>_state_trace\<close> and raises the exception again.\<close>

definition make_jaxpr ::
  "stateful_function \<Rightarrow> int list \<Rightarrow> world \<Rightarrow> (error + unit) \<times> stateful_function \<times> world" where
  "make_jaxpr sf args w =
     (case get_arg_cache_key (cache_type sf) (static_argnums sf) args of
        Inl e \<Rightarrow> (Inl e, sf, w)
      | Inr key \<Rightarrow>
          (if state_trace_tbl sf key \<noteq> None then (Inr (), sf, w)
           else
             (case make_jaxpr_private partial_wrapped (wrapped_fun_to_eval key)
                     (static_argnums sf) args (sf, w) of
                (Inl e, sf', w') \<Rightarrow>
                  (Inl e, sf'\<lparr>state_trace_tbl := (state_trace_tbl sf')(key := None)\<rparr>, w')
              | (Inr (jaxpr, shapes), sf', w') \<Rightarrow>
                  (Inr (),
                   sf'\<lparr>jaxpr_out_tree := (jaxpr_out_tree sf')(key \<mapsto> tree_structure shapes),
                       out_shapes := (out_shapes sf')(key \<mapsto> shapes),
                       jaxpr_tbl := (jaxpr_tbl sf')(key \<mapsto> jaxpr)\<rparr>,
                   w'))))"

section \<open>The replayer\<close>

text \<open>\<^verbatim>\<open>jaxpr_call(state_vals, *args)\<close>: the key, the recorded states and the length
  assertion; the non-static arguments followed by the state values are the inputs of the
  artifact; its outputs are unflattened by the stored tree into the pair
  \<^verbatim>\<open>out, new_state_vals\<close>, whose second part must be as long as \<^verbatim>\<open>state_vals\<close>.\<close>

definition jaxpr_call ::
  "stateful_function \<Rightarrow> int list \<Rightarrow> int list \<Rightarrow> error + int pytree list \<times> int pytree" where
  "jaxpr_call sf state_vals args =
     (case get_arg_cache_key (cache_type sf) (static_argnums sf) args of
        Inl e \<Rightarrow> Inl e
      | Inr key \<Rightarrow>
     (case get_states sf key of
        Inl e \<Rightarrow> Inl e
      | Inr sts \<Rightarrow>
     (if length state_vals \<noteq> length sts then Inl AssertionError
      else
     (case get_jaxpr sf key of
        Inl e \<Rightarrow> Inl e
      | Inr closed \<Rightarrow>
     (case get_out_treedef sf key of
        Inl e \<Rightarrow> Inl e
      | Inr out_treedef \<Rightarrow>
     (case eval_jaxpr closed (dynamic_by_position (static_argnums sf) args @ state_vals) of
        Inl e \<Rightarrow> Inl e
      | Inr jaxpr_outs \<Rightarrow>
     (case unflatten out_treedef jaxpr_outs of
        Inl e \<Rightarrow> Inl e
      | Inr (Node [out, Node new_state_vals]) \<Rightarrow>
          (if length new_state_vals \<noteq> length state_vals then Inl AssertionError
           else Inr (new_state_vals, out))
      | Inr other \<Rightarrow> Inl ValueError_tree_mismatch)))))))"

text \<open>Reading the cells for a replay: the value of a cell that is a tracer escaped from a
  trace cannot be an input of \<^verbatim>\<open>eval_jaxpr\<close>.\<close>

fun concrete_values :: "pyval list \<Rightarrow> error + int list" where
  "concrete_values [] = Inr []"
| "concrete_values (Concrete a # vs) =
     (case concrete_values vs of Inl e \<Rightarrow> Inl e | Inr as \<Rightarrow> Inr (a # as))"
| "concrete_values (Tracer e # vs) = Inl UnexpectedTracerError"

text \<open>\<^verbatim>\<open>for st, val in zip(states, state_vals): st.value = val\<close>, with the assignment
  of the State Cell contract (section 3: a write's value must have the structure of the
  cell's value, here one leaf); when an assignment raises, the cells assigned before keep
  their new values.\<close>

fun write_back :: "cell list \<Rightarrow> int pytree list \<Rightarrow> (cell \<Rightarrow> pyval) \<Rightarrow> error option \<times> (cell \<Rightarrow> pyval)" where
  "write_back (st # sts) (Leaf v # vals) h = write_back sts vals (h(st := Concrete v))"
| "write_back (st # sts) (Node ts # vals) h = (Some ValueError_tree_mismatch, h)"
| "write_back sts vals h = (None, h)"

text \<open>\<^verbatim>\<open>jaxpr_call_auto(*args)\<close>: the current values of the recorded cells are read,
  \<^verbatim>\<open>jaxpr_call\<close> replays, and the new values are assigned to the same cells.\<close>

definition jaxpr_call_auto ::
  "stateful_function \<Rightarrow> int list \<Rightarrow> world \<Rightarrow> (error + int pytree) \<times> world" where
  "jaxpr_call_auto sf args w =
     (case get_arg_cache_key (cache_type sf) (static_argnums sf) args of
        Inl e \<Rightarrow> (Inl e, w)
      | Inr key \<Rightarrow>
     (case get_states sf key of
        Inl e \<Rightarrow> (Inl e, w)
      | Inr sts \<Rightarrow>
     (case concrete_values (map (cells w) sts) of
        Inl e \<Rightarrow> (Inl e, w)
      | Inr vals \<Rightarrow>
     (case jaxpr_call sf vals args of
        Inl e \<Rightarrow> (Inl e, w)
      | Inr (state_vals, out) \<Rightarrow>
          (case write_back sts state_vals (cells w) of
             (Some e, h) \<Rightarrow> (Inl e, w\<lparr>cells := h\<rparr>)
           | (None, h) \<Rightarrow> (Inr out, w\<lparr>cells := h\<rparr>))))))"

text \<open>\<^verbatim>\<open>compile_and_get_states_by_static_args(*args)\<close>.\<close>

definition compile_and_get_states_by_static_args ::
  "stateful_function \<Rightarrow> int list \<Rightarrow> world \<Rightarrow> (error + cell list) \<times> stateful_function \<times> world" where
  "compile_and_get_states_by_static_args sf args w =
     (case get_arg_cache_key (cache_type sf) (static_argnums sf) args of
        Inl e \<Rightarrow> (Inl e, sf, w)
      | Inr key \<Rightarrow>
          (if state_trace_tbl sf key = None
           then (case make_jaxpr sf args w of
                   (Inl e, sf', w') \<Rightarrow> (Inl e, sf', w')
                 | (Inr u, sf', w') \<Rightarrow> (get_states sf' key, sf', w'))
           else (get_states sf key, sf, w)))"

text \<open>\<^verbatim>\<open>_assign_state_values(states, state_vals)\<close>: the lengths must agree, then
  \<^verbatim>\<open>st.value = val\<close> for each pair in order.\<close>

definition load_values :: "cell list \<Rightarrow> int list \<Rightarrow> (cell \<Rightarrow> pyval) \<Rightarrow> (cell \<Rightarrow> pyval)" where
  "load_values sts vals h = fold (\<lambda>(st, v) h'. h'(st := Concrete v)) (zip sts vals) h"

definition assign_state_values ::
  "cell list \<Rightarrow> int list \<Rightarrow> (cell \<Rightarrow> pyval) \<Rightarrow> error + (cell \<Rightarrow> pyval)" where
  "assign_state_values sts vals h =
     (if length sts \<noteq> length vals then Inl AssertionError else Inr (load_values sts vals h))"

text \<open>Direct execution of the wrapped function, outside any trace, on concrete
  arguments.\<close>

definition run_direct :: "target \<Rightarrow> int list \<Rightarrow> world \<Rightarrow> (error + leaf pytree) \<times> world" where
  "run_direct f args w =
     (case call_target f (map Concrete args)
             \<lparr>heap = cells w, executions = fun_calls w, tracing = False,
              trace = init_trace_and_newarg, frame_invars = 0\<rparr> of
        (r, s) \<Rightarrow> (r, \<lparr>cells = heap s, fun_calls = executions s\<rparr>))"

section \<open>The public operations and the consistency of the tables\<close>

text \<open>The four tables hold the same keys.\<close>

definition cache_consistent :: "stateful_function \<Rightarrow> bool" where
  "cache_consistent sf \<longleftrightarrow>
     dom (jaxpr_tbl sf) = dom (state_trace_tbl sf)
   \<and> dom (out_shapes sf) = dom (state_trace_tbl sf)
   \<and> dom (jaxpr_out_tree sf) = dom (state_trace_tbl sf)"

text \<open>The public operations of a wrapper after its construction, and what each does to the
  wrapper and to the world; the accessors and \<^verbatim>\<open>jaxpr_call\<close> only return values.\<close>

datatype operation =
    OpMakeJaxpr "int list"
  | OpClearCache
  | OpGetJaxpr cache_key
  | OpGetOutShapes cache_key
  | OpGetOutTreedef cache_key
  | OpGetStates cache_key
  | OpGetReadStates cache_key
  | OpGetWriteStates cache_key
  | OpGetArgCacheKey "int list"
  | OpCompile "int list"
  | OpJaxprCall "int list" "int list"
  | OpJaxprCallAuto "int list"

fun apply_operation :: "operation \<Rightarrow> stateful_function \<times> world \<Rightarrow> stateful_function \<times> world" where
  "apply_operation (OpMakeJaxpr args) (sf, w) = snd (make_jaxpr sf args w)"
| "apply_operation OpClearCache (sf, w) = (clear_cache sf, w)"
| "apply_operation (OpCompile args) (sf, w) = snd (compile_and_get_states_by_static_args sf args w)"
| "apply_operation (OpJaxprCallAuto args) (sf, w) = (sf, snd (jaxpr_call_auto sf args w))"
| "apply_operation other (sf, w) = (sf, w)"

section \<open>Example functions\<close>

text \<open>The wrapper \<^verbatim>\<open>StatefulFunction(f)\<close> with the default configuration; the scenario of
  the specification, \<^verbatim>\<open>f(x): s.value = x + s.value\<close> with \<^verbatim>\<open>s = State(10)\<close>; a
  function that assigns to \<^verbatim>\<open>s\<close> and raises; a function that returns \<^verbatim>\<open>s\<close> inside
  a container; and the identity.\<close>

definition new_wrapper :: "target \<Rightarrow> stateful_function" where
  "new_wrapper f =
     \<lparr>wrapped_fun = f, static_argnums = [], cache_type = None,
      jaxpr_tbl = Map.empty, out_shapes = Map.empty,
      jaxpr_out_tree = Map.empty, state_trace_tbl = Map.empty\<rparr>"

definition scenario_fun :: target where
  "scenario_fun =
     \<lparr>kind = PlainFunction,
      body = [SRead 0, SWrite 0 (UOp (+) (UArg 0) (ULocal 0))],
      result = Node []\<rparr>"

definition scenario_world :: world where
  "scenario_world = \<lparr>cells = (\<lambda>c. Concrete 10), fun_calls = 0\<rparr>"

definition raising_fun :: target where
  "raising_fun =
     \<lparr>kind = PlainFunction, body = [SWrite 0 (ULit 1), SRaise 7], result = Node []\<rparr>"

definition state_returning_fun :: target where
  "state_returning_fun =
     \<lparr>kind = PlainFunction, body = [], result = Node [Leaf (RVal (UArg 0)), Node [Leaf (RState 0)]]\<rparr>"

definition identity_of_kind :: "target_kind \<Rightarrow> target" where
  "identity_of_kind k = \<lparr>kind = k, body = [], result = Leaf (RVal (UArg 0))\<rparr>"

section \<open>Invariants of a running trace\<close>

text \<open>What holds of the interpreter state while the tracer is active, relative to the
  values \<open>h0\<close> the cells held when the trace began: the records are well formed, every
  tag is one of the two categories, a cell without a record still holds its value, and
  the snapshots are the values at the beginning.\<close>

definition trace_ok :: "(cell \<Rightarrow> pyval) \<Rightarrow> run_state \<Rightarrow> bool" where
  "trace_ok h0 s \<longleftrightarrow>
     tracing s
   \<and> length (types (trace s)) = length (states (trace s))
   \<and> distinct (states (trace s))
   \<and> set (types (trace s)) \<subseteq> {''read'', ''write''}
   \<and> (\<forall>c. c \<notin> set (states (trace s)) \<longrightarrow> heap s c = h0 c)
   \<and> original_values (trace s) = map h0 (states (trace s))"

text \<open>The call of \<^verbatim>\<open>self.fun\<close> that the trace of \<^verbatim>\<open>make_jaxpr\<close> performs: on the
  traced arguments, inside the new tracer, on a frame with one input variable per dynamic
  argument.\<close>

definition traced_call :: "stateful_function \<Rightarrow> int list \<Rightarrow> world \<Rightarrow> (error + leaf pytree) \<times> run_state" where
  "traced_call sf args w =
     call_target (wrapped_fun sf) (trace_args (static_argnums sf) args)
       (enter_trace w (length (dynamic_by_position (static_argnums sf) args)))"

text \<open>A wrapper of \<open>f\<close> in its configuration whose state-trace table is empty.\<close>

definition untraced :: "target \<Rightarrow> int list \<Rightarrow> string option \<Rightarrow> stateful_function \<Rightarrow> bool" where
  "untraced f ns ctype sf \<longleftrightarrow>
     wrapped_fun sf = f \<and> static_argnums sf = ns \<and> cache_type sf = ctype
   \<and> state_trace_tbl sf = Map.empty"

section \<open>Replaying against direct execution\<close>

text \<open>The relations of the simulation between the run of the wrapped function under the
  tracer and its direct run. A traced value denotes the number its expression evaluates
  to on the inputs of the replay. The inputs are the dynamic arguments followed by the
  state values, one per recorded cell. While the trace has recorded a prefix of the
  final records, every recorded cell holds, in the direct run, the number its traced
  value denotes, and every cell still to be recorded holds the state value loaded for
  it.\<close>

definition denotes :: "int list \<Rightarrow> pyval \<Rightarrow> int \<Rightarrow> bool" where
  "denotes inp v a \<longleftrightarrow> eval_jexpr inp (to_jexpr v) = Inr a"

definition replay_inputs :: "int list \<Rightarrow> nat \<Rightarrow> cell list \<Rightarrow> int list \<Rightarrow> bool" where
  "replay_inputs inp ndyn sts vals \<longleftrightarrow>
     distinct sts \<and> length vals = length sts \<and> length inp = ndyn + length sts
   \<and> (\<forall>j < length sts. inp ! (ndyn + j) = vals ! j)"

definition sim_state :: "int list \<Rightarrow> nat \<Rightarrow> cell list \<Rightarrow> int list \<Rightarrow> run_state \<Rightarrow> run_state \<Rightarrow> bool" where
  "sim_state inp ndyn sts vals st sd \<longleftrightarrow>
     tracing st \<and> \<not> tracing sd
   \<and> prefix (states (trace st)) sts
   \<and> frame_invars st = ndyn + length (states (trace st))
   \<and> (\<forall>c \<in> set (states (trace st)). \<exists>a. denotes inp (heap st c) a \<and> heap sd c = Concrete a)
   \<and> (\<forall>j < length sts. sts ! j \<notin> set (states (trace st)) \<longrightarrow> heap sd (sts ! j) = Concrete (vals ! j))"

section \<open>Properties of the cache-key builder and of the accessors\<close>

lemma py_index_in_range:
  "0 \<le> i \<Longrightarrow> i < int (length xs) \<Longrightarrow> py_index xs i = Inr (xs ! nat i)"
  by (simp add: py_index_def)

lemma static_values_nonneg:
  "\<forall>i\<in>set ns. 0 \<le> i \<Longrightarrow>
     static_values ns args = Inr (map (\<lambda>i. args ! nat i) (filter (\<lambda>i. i < int (length args)) ns))"
  by (induction ns) (simp_all add: py_index_in_range)

lemma positions_of_sorted:
  assumes "sorted_wrt (<) ns" and "\<forall>i\<in>set ns. 0 \<le> i"
  shows "filter (\<lambda>i. int i \<in> set ns) [0..<n] = map nat (filter (\<lambda>i. i < int n) ns)"
proof (rule sorted_distinct_set_unique)
  show "sorted (filter (\<lambda>i. int i \<in> set ns) [0..<n])" by (simp add: sorted_wrt_filter)
  show "distinct (filter (\<lambda>i. int i \<in> set ns) [0..<n])" by simp
  have s: "sorted_wrt (<) (filter (\<lambda>i. i < int n) ns)"
    using assms(1) by (simp add: sorted_wrt_filter)
  have "sorted_wrt (<) (map nat (filter (\<lambda>i. i < int n) ns))"
    unfolding sorted_wrt_map
    by (rule sorted_wrt_mono_rel[OF _ s]) (use assms(2) in auto)
  then show "sorted (map nat (filter (\<lambda>i. i < int n) ns))"
    and "distinct (map nat (filter (\<lambda>i. i < int n) ns))"
    by (simp_all add: strict_sorted_iff)
  show "set (filter (\<lambda>i. int i \<in> set ns) [0..<n]) = set (map nat (filter (\<lambda>i. i < int n) ns))"
  proof (intro set_eqI iffI)
    fix x assume "x \<in> set (filter (\<lambda>i. int i \<in> set ns) [0..<n])"
    then have "int x \<in> set ns" "int x < int n" "x = nat (int x)" by auto
    then show "x \<in> set (map nat (filter (\<lambda>i. i < int n) ns))"
      by (metis (mono_tags, lifting) image_eqI list.set_map mem_Collect_eq set_filter)
  next
    fix x assume "x \<in> set (map nat (filter (\<lambda>i. i < int n) ns))"
    then obtain i where "i \<in> set ns" "i < int n" "x = nat i" by auto
    with assms(2) show "x \<in> set (filter (\<lambda>i. int i \<in> set ns) [0..<n])" by auto
  qed
qed

text \<open>
  Claim C8, as stated: under the static-only policy (\<^verbatim>\<open>cache_type\<close> None), for every
  call, the cache key is the tuple of the values at the designated static-argument
  positions, in position order. It fails for \<^verbatim>\<open>static_argnums = (1, 0)\<close> and the call
  \<^verbatim>\<open>(10, 20)\<close>: the key is \<^verbatim>\<open>(20, 10)\<close>, the values in position order are
  \<^verbatim>\<open>(10, 20)\<close>. And for \<^verbatim>\<open>static_argnums = (-3,)\<close> the same call computes no key:
  the index passes the test \<^verbatim>\<open>i < num_arg\<close> and \<^verbatim>\<open>args[-3]\<close> raises IndexError.
\<close>

theorem static_only_key_counterexample:
  "get_arg_cache_key None [1, 0] [10, 20] = Inr (StaticKey [20, 10])
   \<and> static_by_position [1, 0] [10, 20 :: int] = [10, 20]
   \<and> get_arg_cache_key None [-3] [10, 20] = Inl IndexError"
  by (simp add: get_arg_cache_key_def py_index_def static_by_position_def upt_rec)

text \<open>
  Claim C8, amended: under the static-only policy, for non-negative
  \<^verbatim>\<open>static_argnums\<close>, the cache key is the tuple of \<^verbatim>\<open>args[i]\<close> for the indices
  \<open>i\<close> of \<^verbatim>\<open>static_argnums\<close> below \<^verbatim>\<open>len(args)\<close>, in the order in which
  \<^verbatim>\<open>static_argnums\<close> lists them; when \<^verbatim>\<open>static_argnums\<close> is strictly ascending,
  this is the tuple of the values at the designated static positions in position order.
\<close>

theorem static_only_key:
  assumes "\<forall>i\<in>set ns. 0 \<le> i"
  shows "get_arg_cache_key None ns args =
           Inr (StaticKey (map (\<lambda>i. args ! nat i) (filter (\<lambda>i. i < int (length args)) ns)))
       \<and> (sorted_wrt (<) ns \<longrightarrow>
            get_arg_cache_key None ns args = Inr (StaticKey (static_by_position ns args)))"
proof -
  have a: "get_arg_cache_key None ns args =
           Inr (StaticKey (map (\<lambda>i. args ! nat i) (filter (\<lambda>i. i < int (length args)) ns)))"
    by (simp add: get_arg_cache_key_def static_values_nonneg[OF assms])
  have "static_by_position ns args = map (\<lambda>i. args ! nat i) (filter (\<lambda>i. i < int (length args)) ns)"
    if "sorted_wrt (<) ns"
    by (simp add: static_by_position_def positions_of_sorted[OF that assms] comp_def)
  with a show ?thesis by simp
qed

theorem static_only_key_witness:
  "get_arg_cache_key None [0, 2] [10, 20, 30] = Inr (StaticKey [10, 30])
   \<and> static_by_position [0, 2] [10, 20, 30 :: int] = [10, 30]"
  using static_only_key [of "[0, 2]" "[10, 20, 30]"]
  by (simp add: static_by_position_def)

text \<open>The four accessors that test the key before they subscript their table.\<close>

lemma checked_accessors_not_traced:
  "jaxpr_tbl sf key = None \<Longrightarrow> get_jaxpr sf key = Inl ValueError_not_called"
  "out_shapes sf key = None \<Longrightarrow> get_out_shapes sf key = Inl ValueError_not_called"
  "jaxpr_out_tree sf key = None \<Longrightarrow> get_out_treedef sf key = Inl ValueError_not_called"
  "state_trace_tbl sf key = None \<Longrightarrow> get_states sf key = Inl ValueError_not_called"
  by (simp_all add: get_jaxpr_def get_out_shapes_def get_out_treedef_def get_states_def)

text \<open>
  Claim C9: every accessor, called with a cache key that has no stored trace, fails with
  the "not traced for this key" error. On a wrapper that has traced nothing,
  \<^verbatim>\<open>get_jaxpr\<close>, \<^verbatim>\<open>get_out_shapes\<close>, \<^verbatim>\<open>get_out_treedef\<close> and \<^verbatim>\<open>get_states\<close>
  raise that error (the ValueError "the function is not called with the static
  arguments"), while \<^verbatim>\<open>get_read_states\<close> and \<^verbatim>\<open>get_write_states\<close> raise the
  KeyError of the dictionary.
\<close>

theorem read_write_accessors_key_error:
  "(case init f ns None of
      Inl e \<Rightarrow> False
    | Inr sf \<Rightarrow>
        get_jaxpr sf key = Inl ValueError_not_called
      \<and> get_out_shapes sf key = Inl ValueError_not_called
      \<and> get_out_treedef sf key = Inl ValueError_not_called
      \<and> get_states sf key = Inl ValueError_not_called
      \<and> get_read_states sf key = Inl KeyError
      \<and> get_write_states sf key = Inl KeyError)"
  by (simp add: init_def get_jaxpr_def get_out_shapes_def get_out_treedef_def get_states_def
      get_read_states_def get_write_states_def)

section \<open>Properties of the cache tables\<close>

lemma wrapped_fun_to_eval_sf:
  "wrapped_fun_to_eval key args frame (sf, w) = (r, n, sf', w') \<Longrightarrow>
     \<exists>tr. sf' = sf\<lparr>state_trace_tbl := (state_trace_tbl sf)(key \<mapsto> tr)\<rparr>"
  by (auto simp: wrapped_fun_to_eval_def Let_def split: prod.splits sum.splits option.splits)

lemma check_partial_wrapped: "check_callable partial_wrapped = None"
  by (simp add: check_callable_def partial_wrapped_def)

lemma make_jaxpr_private_sf:
  assumes "make_jaxpr_private partial_wrapped (wrapped_fun_to_eval key) ns args (sf, w) = (r, sf', w')"
  shows "\<exists>tr. sf' = sf\<lparr>state_trace_tbl := (state_trace_tbl sf)(key \<mapsto> tr)\<rparr>"
proof -
  obtain r0 n sf0 w0 where
    f: "wrapped_fun_to_eval key (trace_args ns args) (length (dynamic_by_position ns args)) (sf, w)
          = (r0, n, sf0, w0)"
    by (metis prod_cases4)
  from assms have "sf' = sf0"
    by (auto simp: make_jaxpr_private_def check_partial_wrapped f split: sum.splits prod.splits)
  with wrapped_fun_to_eval_sf[OF f] show ?thesis by simp
qed

lemma make_jaxpr_cached:
  "get_arg_cache_key (cache_type sf) (static_argnums sf) args = Inr key \<Longrightarrow>
   state_trace_tbl sf key \<noteq> None \<Longrightarrow> make_jaxpr sf args w = (Inr (), sf, w)"
  by (simp add: make_jaxpr_def)

lemma make_jaxpr_failure_sf:
  assumes "make_jaxpr sf args w = (Inl e, sf', w')"
  shows "sf' = sf"
proof (cases "get_arg_cache_key (cache_type sf) (static_argnums sf) args")
  case (Inl a)
  with assms show ?thesis by (simp add: make_jaxpr_def)
next
  case (Inr key)
  show ?thesis
  proof (cases "state_trace_tbl sf key")
    case (Some a)
    with assms Inr show ?thesis by (simp add: make_jaxpr_def)
  next
    case None
    obtain r sf1 w1 where
      p: "make_jaxpr_private partial_wrapped (wrapped_fun_to_eval key) (static_argnums sf) args (sf, w)
            = (r, sf1, w1)"
      by (metis prod_cases3)
    from make_jaxpr_private_sf[OF p] obtain tr where
      sf1: "sf1 = sf\<lparr>state_trace_tbl := (state_trace_tbl sf)(key \<mapsto> tr)\<rparr>" by blast
    from assms Inr None p have "sf' = sf1\<lparr>state_trace_tbl := (state_trace_tbl sf1)(key := None)\<rparr>"
      by (auto simp: make_jaxpr_def split: sum.splits prod.splits)
    with sf1 None show ?thesis by (simp add: fun_upd_idem)
  qed
qed

lemma make_jaxpr_success_sf:
  assumes "make_jaxpr sf args w = (Inr u, sf', w')"
    and "get_arg_cache_key (cache_type sf) (static_argnums sf) args = Inr key"
    and "state_trace_tbl sf key = None"
  shows "\<exists>tr j sh. sf' = sf\<lparr>state_trace_tbl := (state_trace_tbl sf)(key \<mapsto> tr),
                         jaxpr_out_tree := (jaxpr_out_tree sf)(key \<mapsto> tree_structure sh),
                         out_shapes := (out_shapes sf)(key \<mapsto> sh),
                         jaxpr_tbl := (jaxpr_tbl sf)(key \<mapsto> j)\<rparr>"
proof -
  obtain r sf1 w1 where
    p: "make_jaxpr_private partial_wrapped (wrapped_fun_to_eval key) (static_argnums sf) args (sf, w)
          = (r, sf1, w1)"
    by (metis prod_cases3)
  from make_jaxpr_private_sf[OF p] obtain tr where
    sf1: "sf1 = sf\<lparr>state_trace_tbl := (state_trace_tbl sf)(key \<mapsto> tr)\<rparr>" by blast
  from assms p obtain j sh where "r = Inr (j, sh)"
    and "sf' = sf1\<lparr>jaxpr_out_tree := (jaxpr_out_tree sf1)(key \<mapsto> tree_structure sh),
                       out_shapes := (out_shapes sf1)(key \<mapsto> sh),
                       jaxpr_tbl := (jaxpr_tbl sf1)(key \<mapsto> j)\<rparr>"
    by (auto simp: make_jaxpr_def split: sum.splits prod.splits)
  with sf1 show ?thesis by auto
qed


lemmas trace_defs =
  make_jaxpr_def make_jaxpr_private_def wrapped_fun_to_eval_def call_target_def
  get_arg_cache_key_def check_callable_def partial_wrapped_def trace_args_def
  dynamic_by_position_def enter_trace_def init_trace_and_newarg_def state_value_get_def state_value_set_def
  on_read_def on_write_def create_record_def new_arg_def collect_values_def
  recovery_original_values_def new_wrapper_def

lemma scenario_traced:
  "make_jaxpr (new_wrapper scenario_fun) [5] scenario_world =
   (Inr (), (new_wrapper scenario_fun)\<lparr>
      jaxpr_tbl := [StaticKey [] \<mapsto> \<lparr>n_invars = 2, outvars = [Prim (+) (Var 0) (Var 1)]\<rparr>],
      out_shapes := [StaticKey [] \<mapsto> Node [Node [], Node [Leaf ShapeDtypeStruct]]],
      jaxpr_out_tree := [StaticKey [] \<mapsto> Node [Node [], Node [Leaf ()]]],
      state_trace_tbl := [StaticKey [] \<mapsto> \<lparr>states = [0], types = [''write''], original_values = [Concrete 10]\<rparr>]\<rparr>,
    \<lparr>cells = (\<lambda>c. Concrete 10), fun_calls = 1\<rparr>)"
  by (simp add: trace_defs scenario_fun_def scenario_world_def upt_rec fun_eq_iff)








text \<open>
  Claim C4: when the cache key of a call already has a stored entry, \<^verbatim>\<open>make_jaxpr\<close> is
  a no-op: it returns, the wrapper with its artifact, shapes, output tree and access
  records is unchanged, and the world is unchanged, so the body of the wrapped function
  has not run again (\<^verbatim>\<open>fun_calls\<close>) and no cell was touched.
\<close>

theorem make_jaxpr_cached_noop:
  assumes "cache_consistent sf"
    and "get_arg_cache_key (cache_type sf) (static_argnums sf) args = Inr key"
    and "key \<in> dom (jaxpr_tbl sf) \<union> dom (out_shapes sf) \<union> dom (jaxpr_out_tree sf)
               \<union> dom (state_trace_tbl sf)"
  shows "make_jaxpr sf args w = (Inr (), sf, w)"
proof -
  from assms(1,3) have "key \<in> dom (state_trace_tbl sf)"
    by (auto simp: cache_consistent_def)
  then have "state_trace_tbl sf key \<noteq> None" by (simp add: domIff)
  with assms(2) show ?thesis by (rule make_jaxpr_cached)
qed

lemma make_jaxpr_config:
  "make_jaxpr sf args w = (r, sf', w') \<Longrightarrow>
     cache_type sf' = cache_type sf \<and> static_argnums sf' = static_argnums sf
   \<and> wrapped_fun sf' = wrapped_fun sf"
proof (cases r)
  case (Inl e)
  assume "make_jaxpr sf args w = (r, sf', w')"
  with Inl make_jaxpr_failure_sf show ?thesis by blast
next
  case (Inr u)
  assume m: "make_jaxpr sf args w = (r, sf', w')"
  show ?thesis
  proof (cases "get_arg_cache_key (cache_type sf) (static_argnums sf) args")
    case (Inl a)
    with m Inr show ?thesis by (simp add: make_jaxpr_def)
  next
    case key: (Inr key)
    show ?thesis
    proof (cases "state_trace_tbl sf key")
      case (Some a)
      with m key show ?thesis by (simp add: make_jaxpr_def)
    next
      case None
      from make_jaxpr_success_sf[OF m[unfolded Inr] key None] show ?thesis by auto
    qed
  qed
qed

lemma make_jaxpr_success_key:
  assumes "make_jaxpr sf args w = (Inr u, sf', w')"
  shows "\<exists>key. get_arg_cache_key (cache_type sf) (static_argnums sf) args = Inr key
           \<and> state_trace_tbl sf' key \<noteq> None"
proof (cases "get_arg_cache_key (cache_type sf) (static_argnums sf) args")
  case (Inl a)
  with assms show ?thesis by (simp add: make_jaxpr_def)
next
  case key: (Inr key)
  show ?thesis
  proof (cases "state_trace_tbl sf key")
    case (Some a)
    with assms key show ?thesis by (simp add: make_jaxpr_def)
  next
    case None
    from make_jaxpr_success_sf[OF assms key None] key show ?thesis by auto
  qed
qed

lemma make_jaxpr_twice:
  assumes "make_jaxpr sf args w = (Inr u, sf', w')"
  shows "make_jaxpr sf' args w'' = (Inr (), sf', w'')"
proof -
  from make_jaxpr_success_key[OF assms] obtain key where
    k: "get_arg_cache_key (cache_type sf) (static_argnums sf) args = Inr key"
    and s: "state_trace_tbl sf' key \<noteq> None" by blast
  from make_jaxpr_config[OF assms] k
  have "get_arg_cache_key (cache_type sf') (static_argnums sf') args = Inr key" by simp
  then show ?thesis using s by (rule make_jaxpr_cached)
qed



theorem make_jaxpr_cached_noop_witness:
  "make_jaxpr (fst (snd (make_jaxpr (new_wrapper scenario_fun) [5] scenario_world))) [5]
     \<lparr>cells = (\<lambda>c. Concrete 10), fun_calls = 1\<rparr> =
   (Inr (), fst (snd (make_jaxpr (new_wrapper scenario_fun) [5] scenario_world)),
    \<lparr>cells = (\<lambda>c. Concrete 10), fun_calls = 1\<rparr>)"
proof -
  note m = scenario_traced
  show ?thesis
    unfolding m
    by (rule make_jaxpr_cached_noop [of _ _ "StaticKey []"])
       (simp_all add: get_arg_cache_key_def new_wrapper_def cache_consistent_def)
qed

section \<open>Properties of the trace driver\<close>

lemma trace_ok_enter: "trace_ok (cells w) (enter_trace w n)"
  by (simp add: trace_ok_def enter_trace_def init_trace_and_newarg_def)

lemma trace_ok_create_record:
  assumes "trace_ok h0 s" and "c \<notin> set (states (trace s))" and "tag = ''read'' \<or> tag = ''write''"
  shows "trace_ok h0 (create_record tag c s)"
  using assms by (auto simp: trace_ok_def create_record_def new_arg_def)

lemma trace_ok_on_read: "trace_ok h0 s \<Longrightarrow> trace_ok h0 (on_read c s)"
  by (simp add: on_read_def trace_ok_create_record)

lemma set_upgrade_types:
  "set (map (\<lambda>(st, ty). if st = c then ''write'' else ty) (zip sts tys)) \<subseteq> insert ''write'' (set tys)"
proof
  fix x assume "x \<in> set (map (\<lambda>(st, ty). if st = c then ''write'' else ty) (zip sts tys))"
  then obtain st ty where "(st, ty) \<in> set (zip sts tys)" "x = (if st = c then ''write'' else ty)"
    by auto
  then show "x \<in> insert ''write'' (set tys)" by (auto dest: set_zip_rightD)
qed

lemma trace_ok_on_write: 
  assumes "trace_ok h0 s" 
  shows "trace_ok h0 (on_write c s)"
proof (cases "c \<in> set (states (trace s))")
  case True
  have "set (map (\<lambda>(st, ty). if st = c then ''write'' else ty) (zip (states (trace s)) (types (trace s))))
          \<subseteq> {''read'', ''write''}"
    using set_upgrade_types[of c "states (trace s)" "types (trace s)"] assms
    by (auto simp: trace_ok_def)
  with assms True show ?thesis by (simp add: on_write_def trace_ok_def)
next
  case False
  have "tracing s" using assms by (simp add: trace_ok_def)
  with False trace_ok_create_record[OF assms False, of "''write''"] show ?thesis
    by (simp add: on_write_def)
qed

lemma on_write_records: "tracing s \<Longrightarrow> c \<in> set (states (trace (on_write c s)))"
  by (simp add: on_write_def create_record_def new_arg_def)

lemma trace_ok_set: 
  assumes "trace_ok h0 s" 
  shows "trace_ok h0 (state_value_set c v s)"
proof -
  have a: "trace_ok h0 (on_write c s)" using assms by (rule trace_ok_on_write)
  have "c \<in> set (states (trace (on_write c s)))"
    using assms by (simp add: on_write_records trace_ok_def)
  with a show ?thesis by (simp add: state_value_set_def trace_ok_def Let_def)
qed

lemma trace_ok_get: "trace_ok h0 s \<Longrightarrow> trace_ok h0 (snd (state_value_get c s))"
  by (simp add: state_value_get_def Let_def trace_ok_on_read)

lemma trace_ok_exec_body:
  "trace_ok h0 s \<Longrightarrow> trace_ok h0 (snd (exec_body args stmts ls s))"
proof (induction args stmts ls s rule: exec_body.induct)
  case (2 args c rest ls s)
  from "2.prems" have "trace_ok h0 (on_read c s)" by (rule trace_ok_on_read)
  with "2.IH"[of "(heap (on_read c s) c, on_read c s)" "heap (on_read c s) c" "on_read c s"]
  show ?case by (simp add: state_value_get_def Let_def)
next
  case (3 args c e rest ls s)
  then show ?case by (auto simp: trace_ok_set split: sum.splits)
qed simp_all

lemma trace_ok_start_body:
  "trace_ok h0 s \<Longrightarrow> trace_ok h0 (s\<lparr>executions := n\<rparr>)"
  by (simp add: trace_ok_def)

lemma trace_ok_call_target:
  "trace_ok h0 s \<Longrightarrow> trace_ok h0 (snd (call_target f args s))"
  using trace_ok_exec_body[OF trace_ok_start_body, of h0 s args "body f" "[]" "Suc (executions s)"]
  by (auto simp: call_target_def split: target_kind.splits prod.splits sum.splits)

lemma fold_restore:
  "distinct sts \<Longrightarrow> (\<forall>c. c \<notin> set sts \<longrightarrow> h c = h0 c) \<Longrightarrow>
     fold (\<lambda>(st, v) h'. h'(st := v)) (zip sts (map h0 sts)) h = h0"
proof (induction sts arbitrary: h)
  case Nil
  then show ?case by auto
next
  case (Cons a sts)
  have "fold (\<lambda>(st, v) h'. h'(st := v)) (zip sts (map h0 sts)) (h(a := h0 a)) = h0"
    using Cons.prems by (intro Cons.IH) auto
  then show ?case by (simp del: fun_upd_apply)
qed

lemma recovery_restores:
  "trace_ok h0 s \<Longrightarrow> recovery_original_values (trace s) (heap s) = h0"
  by (simp add: recovery_original_values_def trace_ok_def fold_restore)

lemma map_zip_first:
  "length tys = length sts \<Longrightarrow> map (\<lambda>(st, ty). g st) (zip sts tys) = map g sts"
proof -
  assume l: "length tys = length sts"
  have "map (\<lambda>(st, ty). g st) (zip sts tys) = map g (map fst (zip sts tys))"
    by (simp add: case_prod_unfold comp_def)
  also have "\<dots> = map g sts" using l by (simp only: map_fst_zip)
  finally show ?thesis .
qed

lemma collect_all:
  assumes "trace_ok h0 s"
  shows "collect_values [''read'', ''write''] (trace s) (heap s) = map (heap s) (states (trace s))"
proof -
  have "\<forall>p \<in> set (zip (states (trace s)) (types (trace s))). snd p \<in> {''read'', ''write''}"
    using assms by (auto simp: trace_ok_def dest: set_zip_rightD)
  then have "filter (\<lambda>(st, ty). ty \<in> set [''read'', ''write'']) (zip (states (trace s)) (types (trace s)))
     = zip (states (trace s)) (types (trace s))"
    by (intro filter_True) auto
  then have "collect_values [''read'', ''write''] (trace s) (heap s)
     = map (\<lambda>(st, ty). heap s st) (zip (states (trace s)) (types (trace s)))"
    by (simp only: collect_values_def)
  also have "\<dots> = map (heap s) (states (trace s))"
    using assms by (intro map_zip_first) (simp add: trace_ok_def)
  finally show ?thesis .
qed

lemma wrapped_fun_to_eval_returned:
  assumes "call_target (wrapped_fun sf) args (enter_trace w n) = (Inr out, s1)"
  shows "snd (snd (snd (wrapped_fun_to_eval key args n (sf, w)))) = \<lparr>cells = cells w, fun_calls = executions s1\<rparr>"
proof -
  have "trace_ok (cells w) s1"
    using trace_ok_call_target[OF trace_ok_enter[of w n], where f = "wrapped_fun sf" and args = args] assms by simp
  then have "recovery_original_values (trace s1) (heap s1) = cells w" by (rule recovery_restores)
  with assms show ?thesis
    by (simp add: wrapped_fun_to_eval_def Let_def split: option.splits)
qed

lemma wrapped_fun_to_eval_cases:
  "wrapped_fun_to_eval key args n (sf, w) = (r, n', sf', w') \<Longrightarrow>
     (\<exists>e s1. call_target (wrapped_fun sf) args (enter_trace w n) = (Inl e, s1) \<and> r = Inl e
          \<and> w' = \<lparr>cells = heap s1, fun_calls = executions s1\<rparr>)
   \<or> (\<exists>out s1. call_target (wrapped_fun sf) args (enter_trace w n) = (Inr out, s1)
          \<and> w' = \<lparr>cells = cells w, fun_calls = executions s1\<rparr>
          \<and> n' = frame_invars s1
          \<and> (case returned_state (leaves out) of
                Some c \<Rightarrow> r = Inl (ValueError_state_returned c)
              | None \<Rightarrow> r = Inr (out, map (heap s1) (states (trace s1)))))"
proof (cases "call_target (wrapped_fun sf) args (enter_trace w n)")
  case (Pair a s1)
  assume w: "wrapped_fun_to_eval key args n (sf, w) = (r, n', sf', w')"
  show ?thesis
  proof (cases a)
    case (Inl e)
    with Pair w show ?thesis by (auto simp: wrapped_fun_to_eval_def Let_def)
  next
    case (Inr out)
    have ok: "trace_ok (cells w) s1"
      using trace_ok_call_target[OF trace_ok_enter[of w n], where f = "wrapped_fun sf" and args = args] Pair by simp
    from Pair Inr w recovery_restores[OF ok] collect_all[OF ok] show ?thesis
      by (auto simp: wrapped_fun_to_eval_def Let_def split: option.splits)
  qed
qed

lemma make_jaxpr_fresh_raised:
  assumes "get_arg_cache_key (cache_type sf) (static_argnums sf) args = Inr key"
    and "state_trace_tbl sf key = None"
    and "traced_call sf args w = (Inl e, s1)"
  shows "make_jaxpr sf args w = (Inl e, sf, \<lparr>cells = heap s1, fun_calls = executions s1\<rparr>)"
  using assms
  by (simp add: make_jaxpr_def make_jaxpr_private_def check_partial_wrapped
      wrapped_fun_to_eval_def traced_call_def Let_def fun_upd_idem)

lemma traced_call_ok: "traced_call sf args w = (r, s1) \<Longrightarrow> trace_ok (cells w) s1"
  using trace_ok_call_target[OF trace_ok_enter[of w "length (dynamic_by_position (static_argnums sf) args)"],
      where f = "wrapped_fun sf" and args = "trace_args (static_argnums sf) args"]
  by (simp add: traced_call_def)

lemma make_jaxpr_fresh_state_returned:
  assumes "get_arg_cache_key (cache_type sf) (static_argnums sf) args = Inr key"
    and "state_trace_tbl sf key = None"
    and "traced_call sf args w = (Inr out, s1)"
    and "returned_state (leaves out) = Some c"
  shows "make_jaxpr sf args w =
           (Inl (ValueError_state_returned c), sf, \<lparr>cells = cells w, fun_calls = executions s1\<rparr>)"
  using assms recovery_restores[OF traced_call_ok[OF assms(3)]]
  by (simp add: make_jaxpr_def make_jaxpr_private_def check_partial_wrapped
      wrapped_fun_to_eval_def traced_call_def Let_def fun_upd_idem)

lemma make_jaxpr_fresh_invalid_output:
  assumes "get_arg_cache_key (cache_type sf) (static_argnums sf) args = Inr key"
    and "state_trace_tbl sf key = None"
    and "traced_call sf args w = (Inr out, s1)"
    and "returned_state (leaves out) = None"
    and "out_exprs (leaves out @ map Arr (map (heap s1) (states (trace s1)))) = Inl e"
  shows "make_jaxpr sf args w = (Inl e, sf, \<lparr>cells = cells w, fun_calls = executions s1\<rparr>)"
  using assms recovery_restores[OF traced_call_ok[OF assms(3)]] collect_all[OF traced_call_ok[OF assms(3)]]
  by (simp add: make_jaxpr_def make_jaxpr_private_def check_partial_wrapped
      wrapped_fun_to_eval_def traced_call_def Let_def fun_upd_idem)

lemma tree_structure_map: "tree_structure (map_pytree f t) = tree_structure t"
  by (induction t) simp_all

lemma make_jaxpr_fresh_success:
  assumes "get_arg_cache_key (cache_type sf) (static_argnums sf) args = Inr key"
    and "state_trace_tbl sf key = None"
    and "traced_call sf args w = (Inr out, s1)"
    and "returned_state (leaves out) = None"
    and "out_exprs (leaves out @ map Arr (map (heap s1) (states (trace s1)))) = Inr es"
  shows "make_jaxpr sf args w =
     (Inr (),
      sf\<lparr>state_trace_tbl := (state_trace_tbl sf)(key \<mapsto> trace s1),
         jaxpr_out_tree := (jaxpr_out_tree sf)(key \<mapsto>
            Node [tree_structure out, Node (map (\<lambda>c. Leaf ()) (states (trace s1)))]),
         out_shapes := (out_shapes sf)(key \<mapsto>
            Node [map_pytree (\<lambda>l. ShapeDtypeStruct) out,
                  Node (map (\<lambda>c. Leaf ShapeDtypeStruct) (states (trace s1)))]),
         jaxpr_tbl := (jaxpr_tbl sf)(key \<mapsto> \<lparr>n_invars = frame_invars s1, outvars = es\<rparr>)\<rparr>,
      \<lparr>cells = cells w, fun_calls = executions s1\<rparr>)"
  using assms recovery_restores[OF traced_call_ok[OF assms(3)]] collect_all[OF traced_call_ok[OF assms(3)]]
  by (simp add: make_jaxpr_def make_jaxpr_private_def check_partial_wrapped
      wrapped_fun_to_eval_def traced_call_def Let_def tree_structure_map comp_def)

lemma eval_result_keeps_state:
  "eval_result args ls t = Inr out \<Longrightarrow> RState c \<in> set (leaves t) \<Longrightarrow> StateLeaf c \<in> set (leaves out)"
  "eval_results args ls ts = Inr outs \<Longrightarrow> RState c \<in> set (concat (map leaves ts))
     \<Longrightarrow> StateLeaf c \<in> set (concat (map leaves outs))"
proof (induction args ls t and args ls ts arbitrary: out and outs rule: eval_result_eval_results.induct)
  case (1 args ls e)
  then show ?case by (auto split: sum.splits)
next
  case (2 args ls c)
  then show ?case by auto
next
  case (3 args ls ts)
  then show ?case by (auto split: sum.splits)
next
  case (4 args ls)
  then show ?case by simp
next
  case (5 args ls t ts)
  from "5.prems"(1) obtain t' ts' where a: "eval_result args ls t = Inr t'"
    and b: "eval_results args ls ts = Inr ts'" and o: "outs = t' # ts'"
    by (auto split: sum.splits)
  from "5.prems"(2) consider "RState c \<in> set (leaves t)" | "RState c \<in> set (concat (map leaves ts))"
    by auto
  then show ?case
  proof cases
    case 1
    with "5.IH"(1)[OF a] o show ?thesis by simp
  next
    case 2
    with "5.IH"(2)[OF a b] o show ?thesis by simp
  qed
qed

lemma returned_state_finds: "StateLeaf c \<in> set ls \<Longrightarrow> \<exists>c'. returned_state ls = Some c'"
  by (induction ls rule: returned_state.induct) auto

lemma returned_state_member: "returned_state ls = Some c \<Longrightarrow> StateLeaf c \<in> set ls"
  by (induction ls rule: returned_state.induct) auto

lemma call_target_returned:
  assumes "call_target f args s = (Inr out, s1)"
    and "kind f = PlainFunction \<or> kind f = StaticMethod"
  shows "\<exists>ls. exec_body args (body f) [] (s\<lparr>executions := Suc (executions s)\<rparr>) = (Inr ls, s1)
            \<and> eval_result args ls (result f) = Inr out"
  using assms by (auto simp: call_target_def split: prod.splits sum.splits)

lemma state_returning_fails_once:
  assumes "kind (wrapped_fun sf) = PlainFunction \<or> kind (wrapped_fun sf) = StaticMethod"
    and "RState c \<in> set (leaves (result (wrapped_fun sf)))"
    and "state_trace_tbl sf = Map.empty"
  shows "\<exists>e. make_jaxpr sf args w = (Inl e, sf, snd (snd (make_jaxpr sf args w)))"
proof (cases "get_arg_cache_key (cache_type sf) (static_argnums sf) args")
  case (Inl e)
  then show ?thesis by (simp add: make_jaxpr_def)
next
  case (Inr key)
  have none: "state_trace_tbl sf key = None" using assms(3) by simp
  obtain r s1 where t: "traced_call sf args w = (r, s1)" by (cases "traced_call sf args w")
  show ?thesis
  proof (cases r)
    case (Inl e)
    with make_jaxpr_fresh_raised[OF Inr none] t show ?thesis by simp
  next
    case out: (Inr out)
    with t call_target_returned[OF _ assms(1)] obtain ls where
      "eval_result (trace_args (static_argnums sf) args) ls (result (wrapped_fun sf)) = Inr out"
      unfolding traced_call_def by blast
    with assms(2) have "StateLeaf c \<in> set (leaves out)" using eval_result_keeps_state(1) by blast
    then obtain c' where "returned_state (leaves out) = Some c'"
      using returned_state_finds by blast
    with make_jaxpr_fresh_state_returned[OF Inr none] t out show ?thesis by simp
  qed
qed

lemma state_returning_error:
  assumes "state_trace_tbl sf = Map.empty"
    and "get_arg_cache_key (cache_type sf) (static_argnums sf) args = Inr key"
    and "traced_call sf args w = (Inr out, s1)"
    and "StateLeaf c \<in> set (leaves out)"
  shows "\<exists>c'. StateLeaf c' \<in> set (leaves out)
            \<and> fst (make_jaxpr sf args w) = Inl (ValueError_state_returned c')"
proof -
  have none: "state_trace_tbl sf key = None" using assms(1) by simp
  from assms(4) obtain c' where r: "returned_state (leaves out) = Some c'"
    using returned_state_finds by blast
  from make_jaxpr_fresh_state_returned[OF assms(2) none assms(3) r] returned_state_member[OF r]
  show ?thesis by auto
qed

lemma untraced_operation:
  assumes "kind f = PlainFunction \<or> kind f = StaticMethod"
    and "RState c \<in> set (leaves (result f))"
    and "untraced f ns ctype (fst st)"
  shows "untraced f ns ctype (fst (apply_operation op st))"
proof -
  obtain sf w where st: "st = (sf, w)" by (cases st)
  with assms(3) have u: "untraced f ns ctype sf" by simp
  have m: "\<exists>e. make_jaxpr sf args w = (Inl e, sf, snd (snd (make_jaxpr sf args w)))" for args
    using assms(1,2) u by (intro state_returning_fails_once[of sf c]) (simp_all add: untraced_def)
  show ?thesis
  proof (cases op)
    case (OpMakeJaxpr args)
    from m[of args] obtain e where "make_jaxpr sf args w = (Inl e, sf, snd (snd (make_jaxpr sf args w)))" ..
    then have "fst (snd (make_jaxpr sf args w)) = sf" by (metis fst_conv snd_conv)
    with u st OpMakeJaxpr show ?thesis by simp
  next
    case OpClearCache
    with u st show ?thesis by (simp add: untraced_def clear_cache_def)
  next
    case (OpCompile args)
    from m[of args] obtain e where e: "make_jaxpr sf args w = (Inl e, sf, snd (snd (make_jaxpr sf args w)))" ..
    have "fst (snd (compile_and_get_states_by_static_args sf args w)) = sf"
      by (cases "get_arg_cache_key (cache_type sf) (static_argnums sf) args")
         (use e in \<open>auto simp: compile_and_get_states_by_static_args_def split: prod.splits sum.splits\<close>)
    with u st OpCompile show ?thesis by simp
  qed (use u st in simp_all)
qed

lemma untraced_operations:
  assumes "kind f = PlainFunction \<or> kind f = StaticMethod"
    and "RState c \<in> set (leaves (result f))"
  shows "untraced f ns ctype (fst st) \<Longrightarrow> untraced f ns ctype (fst (fold apply_operation ops st))"
  by (induction ops arbitrary: st) (simp_all add: untraced_operation[OF assms])

text \<open>
  Claim C2: a traced function whose return value contains a State Cell at a leaf of its
  (possibly nested) result makes the trace fail, every time: on the wrapper as built and
  after any sequence of operations on it, \<^verbatim>\<open>make_jaxpr\<close> raises, and whenever the
  function returns under the trace the exception is the ValueError "State object is not
  allowed to be returned" for a State leaf of the result.
\<close>

theorem returned_state_rejected:
  assumes "init f ns ctype = Inr sf0"
    and "kind f = PlainFunction \<or> kind f = StaticMethod"
    and "RState c \<in> set (leaves (result f))"
    and "sf = fst (fold apply_operation ops (sf0, w0))"
  shows "(\<exists>e. fst (make_jaxpr sf args w) = Inl e)
       \<and> (\<forall>key out s1. get_arg_cache_key ctype ns args = Inr key \<longrightarrow>
             traced_call sf args w = (Inr out, s1) \<longrightarrow>
             (\<exists>c'. StateLeaf c' \<in> set (leaves out)
                  \<and> fst (make_jaxpr sf args w) = Inl (ValueError_state_returned c')))"
proof -
  have "untraced f ns ctype sf0" using assms(1) by (auto simp: init_def untraced_def split: if_splits)
  then have u: "untraced f ns ctype sf"
    using untraced_operations[OF assms(2,3), of ns ctype "(sf0, w0)" ops] assms(4) by simp
  then have f: "wrapped_fun sf = f" and e: "state_trace_tbl sf = Map.empty"
    and k: "static_argnums sf = ns" "cache_type sf = ctype"
    by (simp_all add: untraced_def)
  from state_returning_fails_once[of sf c args w] assms(2,3) f e
  obtain err where "make_jaxpr sf args w = (Inl err, sf, snd (snd (make_jaxpr sf args w)))" by auto
  then have a: "\<exists>e. fst (make_jaxpr sf args w) = Inl e" by (metis fst_conv)
  have b: "\<exists>c'. StateLeaf c' \<in> set (leaves out)
                  \<and> fst (make_jaxpr sf args w) = Inl (ValueError_state_returned c')"
    if key: "get_arg_cache_key ctype ns args = Inr key" and t: "traced_call sf args w = (Inr out, s1)"
    for key out s1
  proof -
    from t call_target_returned[OF _ assms(2)[folded f]] obtain ls where
      "eval_result (trace_args (static_argnums sf) args) ls (result (wrapped_fun sf)) = Inr out"
      unfolding traced_call_def by blast
    with assms(3) f have "StateLeaf c \<in> set (leaves out)" using eval_result_keeps_state(1) by blast
    with state_returning_error[OF e _ t] key k show ?thesis by simp
  qed
  from a b show ?thesis by blast
qed

theorem returned_state_rejected_witness:
  "fst (make_jaxpr (fst (fold apply_operation [OpMakeJaxpr [5], OpClearCache, OpCompile [3]]
          (new_wrapper state_returning_fun, scenario_world))) [5] scenario_world)
     = Inl (ValueError_state_returned 0)"
proof -
  have i: "init state_returning_fun [] None = Inr (new_wrapper state_returning_fun)"
    by (simp add: init_def new_wrapper_def)
  have k: "kind state_returning_fun = PlainFunction \<or> kind state_returning_fun = StaticMethod"
    and r: "RState 0 \<in> set (leaves (result state_returning_fun))"
    by (simp_all add: state_returning_fun_def)
  define sf where "sf = fst (fold apply_operation [OpMakeJaxpr [5], OpClearCache, OpCompile [3]]
          (new_wrapper state_returning_fun, scenario_world))"
  have u: "untraced state_returning_fun [] None sf"
    unfolding sf_def
    by (rule untraced_operations[OF k r]) (simp add: untraced_def new_wrapper_def)
  have t: "traced_call sf [5] scenario_world =
     (Inr (Node [Leaf (Arr (Tracer (Var 0))), Node [Leaf (StateLeaf 0)]]),
      (enter_trace scenario_world 1)\<lparr>executions := 1\<rparr>)"
    using u by (simp add: traced_call_def untraced_def call_target_def state_returning_fun_def
        trace_args_def dynamic_by_position_def enter_trace_def scenario_world_def upt_rec)
  from returned_state_rejected [OF i k r sf_def, of "[5]" scenario_world] t
  have "\<exists>c'. StateLeaf c' \<in> set (leaves (Node [Leaf (Arr (Tracer (Var 0))), Node [Leaf (StateLeaf 0)]]))
            \<and> fst (make_jaxpr sf [5] scenario_world) = Inl (ValueError_state_returned c')"
    by (simp add: get_arg_cache_key_def)
  then show ?thesis unfolding sf_def by auto
qed

lemma eval_uexp_errors: "eval_uexp args ls e = Inl err \<Longrightarrow> err = NameError"
  by (induction e) (auto split: if_splits sum.splits)

lemma eval_result_errors:
  "eval_result args ls t = Inl err \<Longrightarrow> err = NameError"
  "eval_results args ls ts = Inl err \<Longrightarrow> err = NameError"
  by (induction args ls t and args ls ts rule: eval_result_eval_results.induct)
     (auto split: sum.splits dest: eval_uexp_errors)

lemma exec_body_errors:
  "exec_body args stmts ls s = (Inl err, s') \<Longrightarrow> err = NameError \<or> (\<exists>n. err = UserException n)"
  by (induction args stmts ls s rule: exec_body.induct)
     (auto simp: state_value_get_def Let_def split: sum.splits dest: eval_uexp_errors)

lemma call_target_errors:
  assumes "call_target f args s = (Inl err, s')"
  shows "err = TypeError_not_callable \<or> err = NameError \<or> (\<exists>n. err = UserException n)"
proof (cases "kind f = NotCallable \<or> kind f = GeneratorFunction")
  case True
  with assms show ?thesis by (auto simp: call_target_def)
next
  case False
  obtain r s1 where e: "exec_body args (body f) [] (s\<lparr>executions := Suc (executions s)\<rparr>) = (r, s1)"
    by (cases "exec_body args (body f) [] (s\<lparr>executions := Suc (executions s)\<rparr>)")
  show ?thesis
  proof (cases r)
    case (Inl x)
    with assms False e have "x = err" by (cases "kind f") (auto simp: call_target_def)
    with exec_body_errors[of args "body f" "[]" _ x s1] e Inl show ?thesis by auto
  next
    case (Inr ls)
    with assms False e have "eval_result args ls (result f) = Inl err"
      by (cases "kind f") (auto simp: call_target_def split: sum.splits)
    then show ?thesis using eval_result_errors(1) by blast
  qed
qed

lemma make_jaxpr_cells:
  assumes "make_jaxpr sf args w = (r, sf', w')"
  shows "cells w' = cells w
       \<or> (\<exists>e s1. traced_call sf args w = (Inl e, s1) \<and> r = Inl e \<and> cells w' = heap s1)"
proof (cases "get_arg_cache_key (cache_type sf) (static_argnums sf) args")
  case (Inl e)
  with assms(1) show ?thesis by (simp add: make_jaxpr_def)
next
  case key: (Inr key)
  show ?thesis
  proof (cases "state_trace_tbl sf key")
    case (Some tr)
    with assms(1) key show ?thesis by (simp add: make_jaxpr_def)
  next
    case None
    obtain r1 s1 where t: "traced_call sf args w = (r1, s1)" by (cases "traced_call sf args w")
    show ?thesis
    proof (cases r1)
      case (Inl e)
      with make_jaxpr_fresh_raised[OF key None, of w e s1] t assms(1)
      have "r = Inl e" "w' = \<lparr>cells = heap s1, fun_calls = executions s1\<rparr>" by simp_all
      with t Inl show ?thesis by simp
    next
      case out: (Inr out)
      show ?thesis
      proof (cases "returned_state (leaves out)")
        case (Some c)
        with make_jaxpr_fresh_state_returned[OF key None, of w out s1 c] t out assms(1)
        have "w' = \<lparr>cells = cells w, fun_calls = executions s1\<rparr>" by simp
        then show ?thesis by simp
      next
        case no: None
        show ?thesis
        proof (cases "out_exprs (leaves out @ map Arr (map (heap s1) (states (trace s1))))")
          case (Inl e)
          with make_jaxpr_fresh_invalid_output[OF key None _ no, of w s1 e] t out assms(1)
          have "w' = \<lparr>cells = cells w, fun_calls = executions s1\<rparr>" by simp
          then show ?thesis by simp
        next
          case (Inr es)
          with make_jaxpr_fresh_success[OF key None _ no, of w s1 es] t out assms(1)
          have "w' = \<lparr>cells = cells w, fun_calls = executions s1\<rparr>" by simp
          then show ?thesis by simp
        qed
      qed
    qed
  qed
qed

lemma trace_restores_cells:
  assumes "make_jaxpr sf args w = (r, sf', w')"
    and "r = Inr () \<or> (\<exists>c. r = Inl (ValueError_state_returned c)) \<or> r = Inl TypeError_invalid_jax_type"
  shows "cells w' = cells w"
proof -
  from make_jaxpr_cells[OF assms(1)] consider "cells w' = cells w"
    | e s1 where "traced_call sf args w = (Inl e, s1)" "r = Inl e" by blast
  then show ?thesis
  proof cases
    case 2
    from call_target_errors[OF 2(1)[unfolded traced_call_def]] 2(2) assms(2)
    show ?thesis by auto
  qed
qed

text \<open>
  Claim C6: when the trace operation completes, every touched State Cell holds the value
  it held before tracing began; only the replay write-back commits new values. The lemma
  \<open>trace_restores_cells\<close> above shows it for a trace that returns (and for one that
  fails after the function returned). For \<^verbatim>\<open>f(x): s.value = 1; raise\<close> with
  \<^verbatim>\<open>s = State(10)\<close> the exception leaves \<^verbatim>\<open>_wrapped_fun_to_eval\<close> inside the
  \<^verbatim>\<open>with\<close> block, \<^verbatim>\<open>recovery_original_values()\<close> is not reached, and the
  cell keeps the value the traced function assigned.
\<close>

theorem failed_trace_keeps_written_value:
  "make_jaxpr (new_wrapper raising_fun) [5] scenario_world =
     (Inl (UserException 7), new_wrapper raising_fun,
      \<lparr>cells = (cells scenario_world)(0 := Concrete 1), fun_calls = 1\<rparr>)
   \<and> cells scenario_world 0 = Concrete 10"
  by (simp add: trace_defs raising_fun_def scenario_world_def upt_rec fun_eq_iff)

lemma check_callable_rejects:
  "check_callable (obj_of_kind GeneratorFunction) = Some TypeError_generator"
  "check_callable (obj_of_kind StaticMethod) = Some TypeError_staticmethod"
  "check_callable (obj_of_kind NotCallable) = Some TypeError_not_callable"
  "check_callable (obj_of_kind PlainFunction) = None"
  by (simp_all add: check_callable_def obj_of_kind_def)

lemma make_jaxpr_private_rejects:
  "k \<noteq> PlainFunction \<Longrightarrow>
     \<exists>e. make_jaxpr_private (obj_of_kind k) f ns args st = (Inl e, st)
        \<and> e \<in> {TypeError_generator, TypeError_staticmethod, TypeError_not_callable}"
  by (cases k) (simp_all add: make_jaxpr_private_def check_callable_rejects)

text \<open>
  Claim C7: a wrapped target that is a generator function, a staticmethod object or not
  callable is rejected with a TypeError before tracing begins. \<^verbatim>\<open>_check_callable\<close>
  rejects each such object (\<open>check_callable_rejects\<close>, \<open>make_jaxpr_private_rejects\<close>),
  but \<^verbatim>\<open>StatefulFunction.make_jaxpr\<close> passes it the partial of its own bound method,
  never \<^verbatim>\<open>self.fun\<close>: a staticmethod target is traced and cached, a generator
  function is called under the tracer and fails only when its generator object is no
  valid output, and an object that is not callable fails at the call inside the
  tracer.
\<close>

theorem target_check_misses_wrapped_function:
  "check_callable (obj_of_kind StaticMethod) = Some TypeError_staticmethod
   \<and> check_callable partial_wrapped = None
   \<and> make_jaxpr (new_wrapper (identity_of_kind StaticMethod)) [5] scenario_world =
       (Inr (),
        (new_wrapper (identity_of_kind StaticMethod))\<lparr>
          jaxpr_tbl := [StaticKey [] \<mapsto> \<lparr>n_invars = 1, outvars = [Var 0]\<rparr>],
          out_shapes := [StaticKey [] \<mapsto> Node [Leaf ShapeDtypeStruct, Node []]],
          jaxpr_out_tree := [StaticKey [] \<mapsto> Node [Leaf (), Node []]],
          state_trace_tbl := [StaticKey [] \<mapsto> init_trace_and_newarg]\<rparr>,
        \<lparr>cells = cells scenario_world, fun_calls = 1\<rparr>)
   \<and> fst (make_jaxpr (new_wrapper (identity_of_kind GeneratorFunction)) [5] scenario_world) =
       Inl TypeError_invalid_jax_type
   \<and> fst (make_jaxpr (new_wrapper (identity_of_kind NotCallable)) [5] scenario_world) =
       Inl TypeError_not_callable"
  by (simp add: trace_defs identity_of_kind_def scenario_world_def upt_rec fun_eq_iff obj_of_kind_def)

section \<open>Replay is direct execution\<close>

lemma denotes_Concrete [simp]: "denotes inp (Concrete a) b \<longleftrightarrow> a = b"
  by (simp add: denotes_def)

lemma denotes_bind_prim:
  "denotes inp x a \<Longrightarrow> denotes inp y b \<Longrightarrow> denotes inp (bind_prim f x y) (f a b)"
  by (cases x; cases y) (simp_all add: denotes_def)

lemma bind_prim_Concrete: "bind_prim f (Concrete a) (Concrete b) = Concrete (f a b)"
  by simp

lemma eval_uexp_sim:
  assumes "list_all2 (denotes inp) targs dargs" and "list_all2 (denotes inp) lt ld"
  shows "eval_uexp targs lt e = Inr vt \<Longrightarrow>
     \<exists>a. denotes inp vt a \<and> eval_uexp (map Concrete dargs) (map Concrete ld) e = Inr (Concrete a)"
proof (induction e arbitrary: vt)
  case (UArg i)
  then have i: "i < length targs" and v: "vt = targs ! i" by (auto split: if_splits)
  with assms(1) have "denotes inp vt (dargs ! i)" "i < length dargs"
    by (auto simp: list_all2_conv_all_nth)
  then show ?case by auto
next
  case (ULit a)
  then show ?case by auto
next
  case (ULocal i)
  then have i: "i < length lt" and v: "vt = lt ! i" by (auto split: if_splits)
  with assms(2) have "denotes inp vt (ld ! i)" "i < length ld"
    by (auto simp: list_all2_conv_all_nth)
  then show ?case by auto
next
  case (UOp f x y)
  from UOp.prems obtain vx vy where x: "eval_uexp targs lt x = Inr vx"
    and y: "eval_uexp targs lt y = Inr vy" and v: "vt = bind_prim f vx vy"
    by (auto split: sum.splits)
  from UOp.IH(1)[OF x] obtain a where a: "denotes inp vx a"
    "eval_uexp (map Concrete dargs) (map Concrete ld) x = Inr (Concrete a)" by blast
  from UOp.IH(2)[OF y] obtain b where b: "denotes inp vy b"
    "eval_uexp (map Concrete dargs) (map Concrete ld) y = Inr (Concrete b)" by blast
  from a b v show ?case by (auto intro: denotes_bind_prim)
qed

lemma on_read_prefix: "prefix (states (trace s)) (states (trace (on_read c s)))"
  by (simp add: on_read_def create_record_def new_arg_def)

lemma on_write_prefix: "prefix (states (trace s)) (states (trace (on_write c s)))"
  by (simp add: on_write_def create_record_def new_arg_def)

lemma exec_body_prefix:
  "prefix (states (trace s)) (states (trace (snd (exec_body args stmts ls s))))"
proof (induction args stmts ls s rule: exec_body.induct)
  case (2 args c rest ls s)
  have "prefix (states (trace (on_read c s))) (states (trace (snd (exec_body args rest (ls @ [heap (on_read c s) c]) (on_read c s)))))"
    using "2.IH"[of "(heap (on_read c s) c, on_read c s)" "heap (on_read c s) c" "on_read c s"]
    by (simp add: state_value_get_def Let_def)
  with on_read_prefix[of s c] show ?case
    by (auto simp: state_value_get_def Let_def intro: prefix_order.trans)
next
  case (3 args c e rest ls s)
  show ?case
  proof (cases "eval_uexp args ls e")
    case (Inl a)
    then show ?thesis by simp
  next
    case (Inr v)
    with "3.IH"[of v] have "prefix (states (trace (state_value_set c v s)))
       (states (trace (snd (exec_body args rest ls (state_value_set c v s)))))" by simp
    moreover have "prefix (states (trace s)) (states (trace (state_value_set c v s)))"
      using on_write_prefix[of s c] by (simp add: state_value_set_def Let_def)
    ultimately show ?thesis using Inr by (auto intro: prefix_order.trans)
  qed
qed simp_all

lemma inputs_nth:
  assumes "replay_inputs inp ndyn sts vals" and "prefix (xs @ [c]) sts"
  shows "length xs < length sts" "sts ! length xs = c" "inp ! (ndyn + length xs) = vals ! length xs"
    "ndyn + length xs < length inp"
proof -
  from assms(2) obtain more where m: "sts = xs @ c # more" by (auto simp: prefix_def)
  then show l: "length xs < length sts" and "sts ! length xs = c" by simp_all
  with assms(1) show "inp ! (ndyn + length xs) = vals ! length xs" "ndyn + length xs < length inp"
    by (simp_all add: replay_inputs_def)
qed

lemma sim_create_record:
  assumes "sim_state inp ndyn sts vals st sd" and "replay_inputs inp ndyn sts vals"
    and "c \<notin> set (states (trace st))"
    and "prefix (states (trace st) @ [c]) sts"
  shows "sim_state inp ndyn sts vals (create_record tag c st) sd"
proof -
  note n = inputs_nth[OF assms(2,4)]
  have d: "denotes inp (Tracer (Var (frame_invars st))) (vals ! length (states (trace st)))"
    using assms(1) n by (simp add: denotes_def sim_state_def)
  have h: "heap sd c = Concrete (vals ! length (states (trace st)))"
    using assms(1,3) n by (auto simp: sim_state_def)
  show ?thesis
    using assms(1,3,4) d h
    by (auto simp: sim_state_def create_record_def new_arg_def)
qed

lemma sim_on_read:
  assumes "sim_state inp ndyn sts vals st sd" and "replay_inputs inp ndyn sts vals"
    and "prefix (states (trace (on_read c st))) sts"
  shows "sim_state inp ndyn sts vals (on_read c st) sd"
    and "c \<in> set (states (trace (on_read c st)))"
proof -
  have t: "tracing st" using assms(1) by (simp add: sim_state_def)
  show "sim_state inp ndyn sts vals (on_read c st) sd"
  proof (cases "c \<in> set (states (trace st))")
    case True
    with assms(1) show ?thesis by (simp add: on_read_def)
  next
    case False
    with t assms(3) have "prefix (states (trace st) @ [c]) sts"
      by (simp add: on_read_def create_record_def new_arg_def)
    from sim_create_record[OF assms(1,2) False this] False t show ?thesis
      by (simp add: on_read_def)
  qed
  show "c \<in> set (states (trace (on_read c st)))"
    using t by (simp add: on_read_def create_record_def new_arg_def)
qed

lemma sim_on_write:
  assumes "sim_state inp ndyn sts vals st sd" and "replay_inputs inp ndyn sts vals"
    and "prefix (states (trace (on_write c st))) sts"
  shows "sim_state inp ndyn sts vals (on_write c st) sd"
    and "c \<in> set (states (trace (on_write c st)))"
proof -
  have t: "tracing st" using assms(1) by (simp add: sim_state_def)
  show "sim_state inp ndyn sts vals (on_write c st) sd"
  proof (cases "c \<in> set (states (trace st))")
    case True
    with assms(1) show ?thesis by (simp add: on_write_def sim_state_def)
  next
    case False
    with t assms(3) have "prefix (states (trace st) @ [c]) sts"
      by (simp add: on_write_def create_record_def new_arg_def)
    from sim_create_record[OF assms(1,2) False this] False t show ?thesis
      by (simp add: on_write_def)
  qed
  show "c \<in> set (states (trace (on_write c st)))"
    using t by (simp add: on_write_def create_record_def new_arg_def)
qed

lemma sim_set:
  assumes "sim_state inp ndyn sts vals st sd" and "replay_inputs inp ndyn sts vals"
    and "prefix (states (trace (state_value_set c vt st))) sts"
    and "denotes inp vt a"
  shows "sim_state inp ndyn sts vals (state_value_set c vt st) (state_value_set c (Concrete a) sd)"
proof -
  have p: "prefix (states (trace (on_write c st))) sts"
    using assms(3) by (simp add: state_value_set_def Let_def)
  note w = sim_on_write[OF assms(1,2) p]
  have nd: "\<not> tracing sd" using assms(1) by (simp add: sim_state_def)
  then have sd: "state_value_set c (Concrete a) sd = sd\<lparr>heap := (heap sd)(c := Concrete a)\<rparr>"
    by (simp add: state_value_set_def on_write_def)
  show ?thesis
    unfolding sd using w assms(4)
    by (auto simp: sim_state_def state_value_set_def Let_def)
qed

lemma direct_get: "\<not> tracing sd \<Longrightarrow> state_value_get c sd = (heap sd c, sd)"
  by (simp add: state_value_get_def on_read_def)

lemma direct_set: "\<not> tracing sd \<Longrightarrow> state_value_set c v sd = sd\<lparr>heap := (heap sd)(c := v)\<rparr>"
  by (simp add: state_value_set_def on_write_def)

lemma exec_body_sim:
  assumes "replay_inputs inp ndyn sts vals"
  shows "exec_body targs stmts lt st = (Inr lt', st1) \<Longrightarrow> states (trace st1) = sts \<Longrightarrow>
     sim_state inp ndyn sts vals st sd \<Longrightarrow> list_all2 (denotes inp) lt ld \<Longrightarrow>
     list_all2 (denotes inp) targs dargs \<Longrightarrow>
     \<exists>ld' sd1. exec_body (map Concrete dargs) stmts (map Concrete ld) sd = (Inr (map Concrete ld'), sd1)
        \<and> list_all2 (denotes inp) lt' ld' \<and> sim_state inp ndyn sts vals st1 sd1
        \<and> executions sd1 = executions sd
        \<and> (\<forall>c'. c' \<notin> set sts \<longrightarrow> heap sd1 c' = heap sd c')"
proof (induction targs stmts lt st arbitrary: ld sd rule: exec_body.induct)
  case (1 args ls s)
  then show ?case by auto
next
  case (2 args c rest ls s)
  let ?s' = "on_read c s"
  let ?v = "heap ?s' c"
  from "2.prems"(1) have run: "exec_body args rest (ls @ [?v]) ?s' = (Inr lt', st1)"
    by (simp add: state_value_get_def Let_def)
  have "prefix (states (trace ?s')) (states (trace (snd (exec_body args rest (ls @ [?v]) ?s'))))"
    by (rule exec_body_prefix)
  with run "2.prems"(2) have p: "prefix (states (trace ?s')) sts" by simp
  note r = sim_on_read[OF "2.prems"(3) assms(1) p]
  from r obtain a where a: "denotes inp ?v a" "heap sd c = Concrete a"
    by (auto simp: sim_state_def)
  have l: "list_all2 (denotes inp) (ls @ [?v]) (ld @ [a])"
    using "2.prems"(4) a(1) by (simp add: list_all2_appendI)
  have nd: "\<not> tracing sd" using "2.prems"(3) by (simp add: sim_state_def)
  from "2.IH"[of "(?v, ?s')" ?v ?s', OF _ refl run "2.prems"(2) r(1) l "2.prems"(5)]
  obtain ld' sd1 where
    "exec_body (map Concrete dargs) rest (map Concrete (ld @ [a])) sd = (Inr (map Concrete ld'), sd1)"
    "list_all2 (denotes inp) lt' ld'" "sim_state inp ndyn sts vals st1 sd1"
    "executions sd1 = executions sd" "\<forall>c'. c' \<notin> set sts \<longrightarrow> heap sd1 c' = heap sd c'"
    by (auto simp: state_value_get_def Let_def)
  with a(2) nd show ?case by (auto simp: direct_get)
next
  case (3 args c e rest ls s)
  from "3.prems"(1) obtain vt where e: "eval_uexp args ls e = Inr vt"
    and run: "exec_body args rest ls (state_value_set c vt s) = (Inr lt', st1)"
    by (auto split: sum.splits)
  from eval_uexp_sim[OF "3.prems"(5,4) e] obtain a where
    a: "denotes inp vt a" "eval_uexp (map Concrete dargs) (map Concrete ld) e = Inr (Concrete a)"
    by blast
  have "prefix (states (trace (state_value_set c vt s)))
          (states (trace (snd (exec_body args rest ls (state_value_set c vt s)))))"
    by (rule exec_body_prefix)
  with run "3.prems"(2) have p: "prefix (states (trace (state_value_set c vt s))) sts" by simp
  note s = sim_set[OF "3.prems"(3) assms(1) p a(1)]
  from "3.IH"[OF e run "3.prems"(2) s "3.prems"(4,5)]
  obtain ld' sd1 where
    "exec_body (map Concrete dargs) rest (map Concrete ld) (state_value_set c (Concrete a) sd)
       = (Inr (map Concrete ld'), sd1)"
    "list_all2 (denotes inp) lt' ld'" "sim_state inp ndyn sts vals st1 sd1"
    "executions sd1 = executions (state_value_set c (Concrete a) sd)"
    and fr: "\<forall>c'. c' \<notin> set sts \<longrightarrow> heap sd1 c' = heap (state_value_set c (Concrete a) sd) c'"
    by blast
  moreover have "executions (state_value_set c (Concrete a) sd) = executions sd"
    using "3.prems"(3) by (simp add: direct_set sim_state_def)
  moreover have cs: "c \<in> set sts"
  proof -
    have "c \<in> set (states (trace (state_value_set c vt s)))"
      using "3.prems"(3) by (simp add: state_value_set_def Let_def on_write_records sim_state_def)
    with p show ?thesis using set_mono_prefix by blast
  qed
  moreover have "\<forall>c'. c' \<notin> set sts \<longrightarrow> heap sd1 c' = heap sd c'"
  proof (intro allI impI)
    fix c' assume n: "c' \<notin> set sts"
    with cs have "c' \<noteq> c" by auto
    then have "heap (state_value_set c (Concrete a) sd) c' = heap sd c'"
      using "3.prems"(3) by (simp add: direct_set sim_state_def)
    with fr n show "heap sd1 c' = heap sd c'" by simp
  qed
  ultimately show ?case using a(2) by (intro exI[of _ ld'] exI[of _ sd1]) simp
next
  case (4 args n rest ls s)
  then show ?case by simp
qed

lemma out_exprs_append:
  "out_exprs (xs @ ys) =
     (case out_exprs xs of
        Inl e \<Rightarrow> Inl e
      | Inr a \<Rightarrow> (case out_exprs ys of Inl e \<Rightarrow> Inl e | Inr b \<Rightarrow> Inr (a @ b)))"
  by (induction xs rule: out_exprs.induct) (auto split: sum.splits)

lemma eval_jexprs_append:
  "eval_jexprs inp xs = Inr a \<Longrightarrow> eval_jexprs inp ys = Inr b \<Longrightarrow>
     eval_jexprs inp (xs @ ys) = Inr (a @ b)"
  by (induction xs arbitrary: a) (auto split: sum.splits)

lemma eval_result_sim:
  "eval_result targs lt t = Inr out_t \<Longrightarrow> out_exprs (leaves out_t) = Inr es \<Longrightarrow>
     list_all2 (denotes inp) targs dargs \<Longrightarrow> list_all2 (denotes inp) lt ld \<Longrightarrow>
     \<exists>out. eval_result (map Concrete dargs) (map Concrete ld) t
               = Inr (map_pytree (\<lambda>a. Arr (Concrete a)) out)
          \<and> eval_jexprs inp es = Inr (leaves out)
          \<and> tree_structure out = tree_structure out_t"
  "eval_results targs lt ts = Inr outs_t \<Longrightarrow> out_exprs (concat (map leaves outs_t)) = Inr es \<Longrightarrow>
     list_all2 (denotes inp) targs dargs \<Longrightarrow> list_all2 (denotes inp) lt ld \<Longrightarrow>
     \<exists>outs. eval_results (map Concrete dargs) (map Concrete ld) ts
               = Inr (map (map_pytree (\<lambda>a. Arr (Concrete a))) outs)
          \<and> eval_jexprs inp es = Inr (concat (map leaves outs))
          \<and> map tree_structure outs = map tree_structure outs_t"
proof (induction targs lt t and targs lt ts arbitrary: out_t es and outs_t es
    rule: eval_result_eval_results.induct)
  case (1 args ls e)
  from "1.prems"(1) obtain vt where e: "eval_uexp args ls e = Inr vt" and o: "out_t = Leaf (Arr vt)"
    by (auto split: sum.splits)
  from eval_uexp_sim[OF "1.prems"(3,4) e] obtain a where
    a: "denotes inp vt a" "eval_uexp (map Concrete dargs) (map Concrete ld) e = Inr (Concrete a)"
    by blast
  from "1.prems"(2) o have es: "es = [to_jexpr vt]" by simp
  show ?case
    by (rule exI[of _ "Leaf a"]) (use a o es in \<open>simp add: denotes_def\<close>)
next
  case (2 args ls c)
  then show ?case by auto
next
  case (3 args ls ts)
  from "3.prems"(1) obtain outs_t where r: "eval_results args ls ts = Inr outs_t"
    and o: "out_t = Node outs_t" by (auto split: sum.splits)
  from "3.prems"(2) o have "out_exprs (concat (map leaves outs_t)) = Inr es" by simp
  from "3.IH"[OF r this "3.prems"(3,4)] obtain outs where
    "eval_results (map Concrete dargs) (map Concrete ld) ts
               = Inr (map (map_pytree (\<lambda>a. Arr (Concrete a))) outs)"
    "eval_jexprs inp es = Inr (concat (map leaves outs))"
    "map tree_structure outs = map tree_structure outs_t" by blast
  then show ?case
    by (intro exI[of _ "Node outs"]) (simp add: o)
next
  case (4 args ls)
  then show ?case by auto
next
  case (5 args ls t ts)
  from "5.prems"(1) obtain t' ts' where a: "eval_result args ls t = Inr t'"
    and b: "eval_results args ls ts = Inr ts'" and o: "outs_t = t' # ts'"
    by (auto split: sum.splits)
  from "5.prems"(2) o obtain e1 e2 where e1: "out_exprs (leaves t') = Inr e1"
    and e2: "out_exprs (concat (map leaves ts')) = Inr e2" and es: "es = e1 @ e2"
    by (auto simp: out_exprs_append split: sum.splits)
  from "5.IH"(1)[OF a e1 "5.prems"(3,4)] obtain out where out:
    "eval_result (map Concrete dargs) (map Concrete ld) t = Inr (map_pytree (\<lambda>a. Arr (Concrete a)) out)"
    "eval_jexprs inp e1 = Inr (leaves out)" "tree_structure out = tree_structure t'" by blast
  from "5.IH"(2)[OF a b e2 "5.prems"(3,4)] obtain outs where outs:
    "eval_results (map Concrete dargs) (map Concrete ld) ts
               = Inr (map (map_pytree (\<lambda>a. Arr (Concrete a))) outs)"
    "eval_jexprs inp e2 = Inr (concat (map leaves outs))"
    "map tree_structure outs = map tree_structure ts'" by blast
  show ?case
    by (rule exI[of _ "out # outs"])
       (use out outs o es in \<open>simp add: eval_jexprs_append\<close>)
qed

lemma unflatten_list_structure:
  assumes "\<And>t r. t \<in> set ts \<Longrightarrow> unflatten_from (tree_structure t) (leaves t @ r) = Some (t, r)"
  shows "unflatten_list (map tree_structure ts) (concat (map leaves ts) @ r) = Some (ts, r)"
  using assms by (induction ts arbitrary: r) simp_all

lemma unflatten_structure:
  "unflatten_from (tree_structure t) (leaves t @ r) = Some (t, r)"
  by (induction t arbitrary: r) (simp_all add: unflatten_list_structure)

lemma trace_args_from_denotes:
  "length pre = k \<Longrightarrow>
     list_all2
       (denotes (pre @ map (\<lambda>j. as ! (j - i)) (filter (\<lambda>j. int j \<notin> set ns) [i..<i + length as]) @ post))
       (trace_args_from i k ns as) as"
proof (induction as arbitrary: i k pre)
  case Nil
  then show ?case by simp
next
  case (Cons a as)
  have "i < i + length (a # as)" by simp
  from upt_conv_Cons[OF this]
  have u: "[i..<i + length (a # as)] = i # [Suc i..<Suc i + length as]" by simp
  have m: "map (\<lambda>j. (a # as) ! (j - i)) (filter (\<lambda>j. int j \<notin> set ns) [Suc i..<Suc i + length as])
         = map (\<lambda>j. as ! (j - Suc i)) (filter (\<lambda>j. int j \<notin> set ns) [Suc i..<Suc i + length as])"
  proof (rule map_cong[OF refl])
    fix j assume "j \<in> set (filter (\<lambda>j. int j \<notin> set ns) [Suc i..<Suc i + length as])"
    then have "Suc i \<le> j" by (simp del: upt_Suc)
    then have "j - i = Suc (j - Suc i)" by simp
    then show "(a # as) ! (j - i) = as ! (j - Suc i)" by simp
  qed
  define T where "T = map (\<lambda>j. as ! (j - Suc i)) (filter (\<lambda>j. int j \<notin> set ns) [Suc i..<Suc i + length as])"
  have E: "map (\<lambda>j. (a # as) ! (j - i)) (filter (\<lambda>j. int j \<notin> set ns) [i..<i + length (a # as)])
         = (if int i \<in> set ns then [] else [a]) @ T"
    unfolding u T_def using m by simp
  have IH: "list_all2 (denotes (pre' @ T @ post)) (trace_args_from (Suc i) k' ns as) as"
    if "length pre' = k'" for pre' k'
    unfolding T_def using that by (rule Cons.IH)
  show ?case
  proof (cases "int i \<in> set ns")
    case True
    with IH[OF Cons.prems] show ?thesis unfolding E by simp
  next
    case False
    have "list_all2 (denotes ((pre @ [a]) @ T @ post)) (trace_args_from (Suc i) (Suc k) ns as) as"
      using Cons.prems by (intro IH) simp
    moreover have "denotes (pre @ a # T @ post) (Tracer (Var k)) a"
      using Cons.prems by (simp add: denotes_def nth_append)
    ultimately show ?thesis using False unfolding E by simp
  qed
qed

lemma trace_args_denotes:
  "list_all2 (denotes (dynamic_by_position ns args @ vals)) (trace_args ns args) args"
  using trace_args_from_denotes[of "[]" 0 args 0 ns vals]
  by (simp add: trace_args_def dynamic_by_position_def)

lemma load_values_other: "c \<notin> set sts \<Longrightarrow> load_values sts vals h c = h c"
proof (induction sts arbitrary: vals h)
  case Nil
  then show ?case by (simp add: load_values_def)
next
  case (Cons s sts)
  show ?case
  proof (cases vals)
    case Nil
    then show ?thesis by (simp add: load_values_def)
  next
    case (Cons v vs)
    have "load_values (s # sts) vals h c = load_values sts vs (h(s := Concrete v)) c"
      by (simp add: load_values_def Cons del: fun_upd_apply)
    also have "\<dots> = (h(s := Concrete v)) c"
      using Cons.prems by (intro Cons.IH) simp
    also have "\<dots> = h c" using Cons.prems by simp
    finally show ?thesis .
  qed
qed

lemma load_values_nth:
  "distinct sts \<Longrightarrow> length vals = length sts \<Longrightarrow> j < length sts \<Longrightarrow>
     load_values sts vals h (sts ! j) = Concrete (vals ! j)"
proof (induction sts arbitrary: vals h j)
  case Nil
  then show ?case by simp
next
  case (Cons s sts)
  then obtain v vs where vals: "vals = v # vs" by (cases vals) auto
  have l: "load_values (s # sts) vals h = load_values sts vs (h(s := Concrete v))"
    by (simp add: load_values_def vals del: fun_upd_apply)
  show ?case
  proof (cases j)
    case 0
    have "load_values sts vs (h(s := Concrete v)) s = (h(s := Concrete v)) s"
      using Cons.prems by (intro load_values_other) simp
    with 0 l vals show ?thesis by simp
  next
    case (Suc j')
    have "load_values sts vs (h(s := Concrete v)) (sts ! j') = Concrete (vs ! j')"
      using Cons.prems vals Suc by (intro Cons.IH) simp_all
    with Suc l vals show ?thesis by simp
  qed
qed

lemma out_exprs_Arr: "out_exprs (map Arr vs) = Inr (map to_jexpr vs)"
  by (induction vs) simp_all

lemma final_state_values:
  assumes "\<forall>c \<in> set cs. \<exists>a. denotes inp (heap st c) a \<and> heap sd c = Concrete a"
  shows "\<exists>new_vals. eval_jexprs inp (map to_jexpr (map (heap st) cs)) = Inr new_vals
           \<and> map (heap sd) cs = map Concrete new_vals"
  using assms
proof (induction cs)
  case Nil
  then show ?case by simp
next
  case (Cons c cs)
  then obtain new_vals where n: "eval_jexprs inp (map to_jexpr (map (heap st) cs)) = Inr new_vals"
    "map (heap sd) cs = map Concrete new_vals" by auto
  from Cons.prems obtain a where "denotes inp (heap st c) a" "heap sd c = Concrete a" by auto
  with n show ?case by (intro exI[of _ "a # new_vals"]) (simp add: denotes_def)
qed

lemma unflatten_leaves:
  "length vals = length cs \<Longrightarrow> unflatten_list (map (\<lambda>c. Leaf ()) cs) (vals @ r) = Some (map Leaf vals, r)"
  by (induction cs arbitrary: vals) (auto simp: length_Suc_conv)

lemma unflatten_outputs:
  assumes "tree_structure out = td" and "length new_vals = length cs"
  shows "unflatten (Node [td, Node (map (\<lambda>c. Leaf ()) cs)]) (leaves out @ new_vals)
           = Inr (Node [out, Node (map Leaf new_vals)])"
  using unflatten_structure[of out new_vals] unflatten_leaves[OF assms(2), of "[]"] assms(1)
  by (simp add: unflatten_def)

lemma call_target_kind:
  assumes "call_target f args s = (Inr out, s1)" and "out_exprs (leaves out @ rest) = Inr es"
  shows "kind f = PlainFunction \<or> kind f = StaticMethod"
  using assms by (cases "kind f") (auto simp: call_target_def)

lemma make_jaxpr_traced:
  assumes "get_arg_cache_key (cache_type sf) (static_argnums sf) args = Inr key"
    and "state_trace_tbl sf key = None"
    and "make_jaxpr sf args w = (Inr (), sf', w')"
  shows "\<exists>out s1 es. traced_call sf args w = (Inr out, s1)
           \<and> out_exprs (leaves out @ map Arr (map (heap s1) (states (trace s1)))) = Inr es
           \<and> sf' = sf\<lparr>state_trace_tbl := (state_trace_tbl sf)(key \<mapsto> trace s1),
                jaxpr_out_tree := (jaxpr_out_tree sf)(key \<mapsto>
                    Node [tree_structure out, Node (map (\<lambda>c. Leaf ()) (states (trace s1)))]),
                out_shapes := (out_shapes sf)(key \<mapsto>
                    Node [map_pytree (\<lambda>l. ShapeDtypeStruct) out,
                          Node (map (\<lambda>c. Leaf ShapeDtypeStruct) (states (trace s1)))]),
                jaxpr_tbl := (jaxpr_tbl sf)(key \<mapsto> \<lparr>n_invars = frame_invars s1, outvars = es\<rparr>)\<rparr>
           \<and> w' = \<lparr>cells = cells w, fun_calls = executions s1\<rparr>"
proof -
  obtain r s1 where t: "traced_call sf args w = (r, s1)" by (cases "traced_call sf args w")
  show ?thesis
  proof (cases r)
    case (Inl e)
    with make_jaxpr_fresh_raised[OF assms(1,2), of w e s1] t assms(3) show ?thesis by simp
  next
    case out: (Inr out)
    show ?thesis
    proof (cases "returned_state (leaves out)")
      case (Some c)
      with make_jaxpr_fresh_state_returned[OF assms(1,2), of w out s1 c] t out assms(3)
      show ?thesis by simp
    next
      case no: None
      show ?thesis
      proof (cases "out_exprs (leaves out @ map Arr (map (heap s1) (states (trace s1))))")
        case (Inl e)
        with make_jaxpr_fresh_invalid_output[OF assms(1,2) _ no, of w s1 e] t out assms(3)
        show ?thesis by simp
      next
        case (Inr es)
        from make_jaxpr_fresh_success[OF assms(1,2) _ no Inr, of w] t out assms(3)
        show ?thesis using Inr by (intro exI[of _ out] exI[of _ s1] exI[of _ es]) simp
      qed
    qed
  qed
qed

lemma replay_simulates_direct:
  assumes key: "get_arg_cache_key (cache_type sf) (static_argnums sf) args = Inr key"
    and fresh: "state_trace_tbl sf key = None"
    and traced: "make_jaxpr sf args w = (Inr (), sf', w')"
    and sts: "get_states sf' key = Inr sts"
    and len: "length vals = length sts"
  shows "\<exists>new_vals out h'.
           jaxpr_call sf' vals args = Inr (map Leaf new_vals, out)
         \<and> run_direct (wrapped_fun sf) args \<lparr>cells = load_values sts vals h, fun_calls = n\<rparr>
             = (Inr (map_pytree (\<lambda>a. Arr (Concrete a)) out), \<lparr>cells = h', fun_calls = Suc n\<rparr>)
         \<and> map h' sts = map Concrete new_vals
         \<and> (\<forall>c. c \<notin> set sts \<longrightarrow> h' c = h c)"
proof -
  let ?ns = "static_argnums sf"
  let ?f = "wrapped_fun sf"
  let ?dyn = "dynamic_by_position ?ns args"
  let ?targs = "trace_args ?ns args"
  define inp where "inp = ?dyn @ vals"
  from make_jaxpr_traced[OF key fresh traced] obtain out_t s1 es where
    t: "traced_call sf args w = (Inr out_t, s1)"
    and es: "out_exprs (leaves out_t @ map Arr (map (heap s1) (states (trace s1)))) = Inr es"
    and sf': "sf' = sf\<lparr>state_trace_tbl := (state_trace_tbl sf)(key \<mapsto> trace s1),
                jaxpr_out_tree := (jaxpr_out_tree sf)(key \<mapsto>
                    Node [tree_structure out_t, Node (map (\<lambda>c. Leaf ()) (states (trace s1)))]),
                out_shapes := (out_shapes sf)(key \<mapsto>
                    Node [map_pytree (\<lambda>l. ShapeDtypeStruct) out_t,
                          Node (map (\<lambda>c. Leaf ShapeDtypeStruct) (states (trace s1)))]),
                jaxpr_tbl := (jaxpr_tbl sf)(key \<mapsto> \<lparr>n_invars = frame_invars s1, outvars = es\<rparr>)\<rparr>"
    by blast
  from sts sf' have s1: "states (trace s1) = sts" by (simp add: get_states_def)
  have ok: "trace_ok (cells w) s1" using t by (rule traced_call_ok)
  then have dist: "distinct sts" using s1 by (simp add: trace_ok_def)
  have kind: "kind ?f = PlainFunction \<or> kind ?f = StaticMethod"
    using t es unfolding traced_call_def by (rule call_target_kind)
  let ?st0 = "(enter_trace w (length ?dyn))\<lparr>executions := Suc (fun_calls w)\<rparr>"
  from t kind obtain lt where
    body: "exec_body ?targs (body ?f) [] ?st0 = (Inr lt, s1)"
    and res: "eval_result ?targs lt (result ?f) = Inr out_t"
    unfolding traced_call_def
    by (auto simp: call_target_def enter_trace_def split: prod.splits sum.splits)
  have ri: "replay_inputs inp (length ?dyn) sts vals"
    using dist len by (simp add: replay_inputs_def inp_def nth_append)
  let ?sd0 = "\<lparr>heap = load_values sts vals h, executions = Suc n, tracing = False,
              trace = init_trace_and_newarg, frame_invars = 0\<rparr>"
  have sim0: "sim_state inp (length ?dyn) sts vals ?st0 ?sd0"
    using dist len
    by (simp add: sim_state_def enter_trace_def init_trace_and_newarg_def load_values_nth)
  have targs: "list_all2 (denotes inp) ?targs args"
    unfolding inp_def by (rule trace_args_denotes)
  from exec_body_sim[OF ri body s1 sim0 _ targs, of "[]"]
  obtain ld sd1 where
    dbody: "exec_body (map Concrete args) (body ?f) [] ?sd0 = (Inr (map Concrete ld), sd1)"
    and locals: "list_all2 (denotes inp) lt ld"
    and sim1: "sim_state inp (length ?dyn) sts vals s1 sd1"
    and ex: "executions sd1 = Suc n"
    and frame: "\<forall>c'. c' \<notin> set sts \<longrightarrow> heap sd1 c' = load_values sts vals h c'"
    by auto
  have oa: "out_exprs (map Arr (map (heap s1) sts)) = Inr (map to_jexpr (map (heap s1) sts))"
    by (rule out_exprs_Arr)
  obtain e1 where e1: "out_exprs (leaves out_t) = Inr e1"
    and es_eq: "es = e1 @ map to_jexpr (map (heap s1) sts)"
    using es[unfolded s1 out_exprs_append oa]
    by (cases "out_exprs (leaves out_t)") (simp_all del: map_map)
  from eval_result_sim(1)[OF res e1 targs locals] obtain out where
    dres: "eval_result (map Concrete args) (map Concrete ld) (result ?f)
             = Inr (map_pytree (\<lambda>a. Arr (Concrete a)) out)"
    and ev1: "eval_jexprs inp e1 = Inr (leaves out)"
    and td: "tree_structure out = tree_structure out_t" by blast
  have rel: "\<forall>c \<in> set sts. \<exists>a. denotes inp (heap s1 c) a \<and> heap sd1 c = Concrete a"
    and fr: "frame_invars s1 = length ?dyn + length sts"
    using sim1 s1 by (simp_all add: sim_state_def)
  from final_state_values[OF rel] obtain new_vals where
    ev2: "eval_jexprs inp (map to_jexpr (map (heap s1) sts)) = Inr new_vals"
    and hv: "map (heap sd1) sts = map Concrete new_vals" by blast
  from hv have ln: "length new_vals = length sts" by (metis length_map)
  have evj: "eval_jaxpr \<lparr>n_invars = frame_invars s1, outvars = es\<rparr> (?dyn @ vals)
               = Inr (leaves out @ new_vals)"
    using eval_jexprs_append[OF ev1 ev2] fr len
    by (simp add: eval_jaxpr_def es_eq inp_def)
  have unf: "unflatten (Node [tree_structure out_t, Node (map (\<lambda>c. Leaf ()) sts)]) (leaves out @ new_vals)
           = Inr (Node [out, Node (map Leaf new_vals)])"
    using td ln by (rule unflatten_outputs)
  have call: "jaxpr_call sf' vals args = Inr (map Leaf new_vals, out)"
    using key len evj unf ln
    by (simp add: jaxpr_call_def sf' get_states_def get_jaxpr_def get_out_treedef_def s1)
  have direct: "run_direct ?f args \<lparr>cells = load_values sts vals h, fun_calls = n\<rparr>
             = (Inr (map_pytree (\<lambda>a. Arr (Concrete a)) out), \<lparr>cells = heap sd1, fun_calls = Suc n\<rparr>)"
    using kind dbody dres ex
    by (auto simp: run_direct_def call_target_def)
  have other: "\<forall>c. c \<notin> set sts \<longrightarrow> heap sd1 c = h c"
    using frame by (simp add: load_values_other)
  from call direct hv other show ?thesis by blast
qed

lemma write_back_leaves:
  "length new_vals = length sts \<Longrightarrow>
     write_back sts (map Leaf new_vals) h = (None, load_values sts new_vals h)"
proof (induction sts arbitrary: new_vals h)
  case Nil
  then show ?case by (simp add: load_values_def)
next
  case (Cons s sts)
  then obtain v vs where v: "new_vals = v # vs" by (cases new_vals) auto
  have "load_values (s # sts) (v # vs) h = load_values sts vs (h(s := Concrete v))"
    by (simp add: load_values_def del: fun_upd_apply)
  moreover have "write_back sts (map Leaf vs) (h(s := Concrete v))
      = (None, load_values sts vs (h(s := Concrete v)))"
    using Cons.prems v by (intro Cons.IH) simp
  ultimately show ?case using v by (simp del: fun_upd_apply)
qed

lemma jaxpr_call_lengths:
  assumes "jaxpr_call sf vals args = Inr (svs, out)"
    and "get_arg_cache_key (cache_type sf) (static_argnums sf) args = Inr key"
    and "get_states sf key = Inr sts"
  shows "length svs = length sts"
proof -
  have l: "length vals = length sts"
    using assms by (cases "length vals = length sts") (simp_all add: jaxpr_call_def)
  obtain closed where c: "get_jaxpr sf key = Inr closed"
    using assms l by (cases "get_jaxpr sf key") (simp_all add: jaxpr_call_def)
  obtain td where td: "get_out_treedef sf key = Inr td"
    using assms l c by (cases "get_out_treedef sf key") (simp_all add: jaxpr_call_def)
  obtain outs where o: "eval_jaxpr closed (dynamic_by_position (static_argnums sf) args @ vals) = Inr outs"
    using assms l c td
    by (cases "eval_jaxpr closed (dynamic_by_position (static_argnums sf) args @ vals)")
       (simp_all add: jaxpr_call_def)
  obtain t where t: "unflatten td outs = Inr t"
    using assms l c td o by (cases "unflatten td outs") (simp_all add: jaxpr_call_def)
  from assms l c td o t have "length svs = length vals"
    by (auto simp: jaxpr_call_def split: pytree.splits list.splits if_splits)
  with l show ?thesis by simp
qed

text \<open>
  Claim C3: after tracing once, each call of \<^verbatim>\<open>jaxpr_call_auto\<close> reads the current
  values of the recorded state cells, replays the artifact on them, and writes the
  returned new values back into the same cells in order. In the scenario, with \<^verbatim>\<open>s\<close>
  at 10 and \<^verbatim>\<open>f(x): s.value = x + s.value\<close>, the trace leaves \<^verbatim>\<open>s\<close> at 10, the
  first \<^verbatim>\<open>jaxpr_call_auto(5)\<close> leaves it at 15 and the second at 20.
\<close>

theorem replay_auto_writes_back:
  "(get_arg_cache_key (cache_type sf) (static_argnums sf) args = Inr key \<longrightarrow>
    get_states sf key = Inr sts \<longrightarrow>
    concrete_values (map (cells w) sts) = Inr vals \<longrightarrow>
    jaxpr_call sf vals args = Inr (map Leaf new_vals, out) \<longrightarrow>
    jaxpr_call_auto sf args w = (Inr out, w\<lparr>cells := load_values sts new_vals (cells w)\<rparr>))
   \<and> (let (r1, sf1, w1) = make_jaxpr (new_wrapper scenario_fun) [5] scenario_world;
           (r2, w2) = jaxpr_call_auto sf1 [5] w1;
           (r3, w3) = jaxpr_call_auto sf1 [5] w2
       in r1 = Inr () \<and> cells w1 0 = Concrete 10
        \<and> r2 = Inr (Node []) \<and> cells w2 0 = Concrete 15
        \<and> r3 = Inr (Node []) \<and> cells w3 0 = Concrete 20)"
proof -
  have a: "jaxpr_call_auto sf args w = (Inr out, w\<lparr>cells := load_values sts new_vals (cells w)\<rparr>)"
    if k: "get_arg_cache_key (cache_type sf) (static_argnums sf) args = Inr key"
      and s: "get_states sf key = Inr sts"
      and c: "concrete_values (map (cells w) sts) = Inr vals"
      and j: "jaxpr_call sf vals args = Inr (map Leaf new_vals, out)"
  proof -
    from jaxpr_call_lengths[OF j k s] have "length new_vals = length sts" by simp
    from write_back_leaves[OF this] k s c j show ?thesis
      by (simp add: jaxpr_call_auto_def)
  qed
  note m = scenario_traced
  have b: "(let (r1, sf1, w1) = make_jaxpr (new_wrapper scenario_fun) [5] scenario_world;
           (r2, w2) = jaxpr_call_auto sf1 [5] w1;
           (r3, w3) = jaxpr_call_auto sf1 [5] w2
       in r1 = Inr () \<and> cells w1 0 = Concrete 10
        \<and> r2 = Inr (Node []) \<and> cells w2 0 = Concrete 15
        \<and> r3 = Inr (Node []) \<and> cells w3 0 = Concrete 20)"
    unfolding m
    by (simp add: jaxpr_call_auto_def jaxpr_call_def get_arg_cache_key_def get_states_def
        get_jaxpr_def get_out_treedef_def eval_jaxpr_def unflatten_def dynamic_by_position_def
        new_wrapper_def upt_rec)
  from a b show ?thesis by blast
qed

lemma concrete_values_map: "concrete_values vs = Inr as \<Longrightarrow> vs = map Concrete as"
  by (induction vs arbitrary: as rule: concrete_values.induct) (auto split: sum.splits)

lemma load_values_same:
  "distinct sts \<Longrightarrow> map h sts = map Concrete vals \<Longrightarrow> load_values sts vals h = h"
proof
  fix c
  assume d: "distinct sts" and m: "map h sts = map Concrete vals"
  then have l: "length vals = length sts" by (metis length_map)
  show "load_values sts vals h c = h c"
  proof (cases "c \<in> set sts")
    case True
    then obtain j where j: "j < length sts" "sts ! j = c" by (auto simp: in_set_conv_nth)
    from m j l have "h c = Concrete (vals ! j)" by (metis nth_map)
    with load_values_nth[OF d l j(1), of h] j show ?thesis by simp
  next
    case False
    then show ?thesis by (rule load_values_other)
  qed
qed

lemma load_values_unique:
  assumes "distinct sts" and "map h' sts = map Concrete vals" and "\<forall>c. c \<notin> set sts \<longrightarrow> h' c = h c"
  shows "h' = load_values sts vals h"
proof
  fix c
  from assms(2) have l: "length vals = length sts" by (metis length_map)
  show "h' c = load_values sts vals h c"
  proof (cases "c \<in> set sts")
    case True
    then obtain j where j: "j < length sts" "sts ! j = c" by (auto simp: in_set_conv_nth)
    from assms(2) j l have "h' c = Concrete (vals ! j)" by (metis nth_map)
    with load_values_nth[OF assms(1) l j(1), of h] j show ?thesis by simp
  next
    case False
    with assms(3) show ?thesis by (simp add: load_values_other)
  qed
qed

lemma traced_states_distinct:
  assumes "get_arg_cache_key (cache_type sf) (static_argnums sf) args = Inr key"
    and "state_trace_tbl sf key = None"
    and "make_jaxpr sf args w = (Inr (), sf', w')"
    and "get_states sf' key = Inr sts"
  shows "distinct sts"
proof -
  from make_jaxpr_traced[OF assms(1-3)] obtain out s1 where
    t: "traced_call sf args w = (Inr out, s1)" and "state_trace_tbl sf' key = Some (trace s1)"
    by auto
  with assms(4) have "states (trace s1) = sts" by (simp add: get_states_def)
  with traced_call_ok[OF t] show ?thesis by (auto simp: trace_ok_def)
qed

lemma make_jaxpr_keeps_config:
  assumes "get_arg_cache_key (cache_type sf) (static_argnums sf) args = Inr key"
    and "state_trace_tbl sf key = None"
    and "make_jaxpr sf args w = (Inr (), sf', w')"
  shows "cache_type sf' = cache_type sf" "static_argnums sf' = static_argnums sf"
  using make_jaxpr_traced[OF assms] by auto

lemma replay_auto_equals_direct:
  assumes key: "get_arg_cache_key (cache_type sf) (static_argnums sf) args = Inr key"
    and fresh: "state_trace_tbl sf key = None"
    and traced: "make_jaxpr sf args w0 = (Inr (), sf', w0')"
    and sts: "get_states sf' key = Inr sts"
    and conc: "concrete_values (map (cells w) sts) = Inr vals"
  shows "\<exists>out h'. jaxpr_call_auto sf' args w = (Inr out, w\<lparr>cells := h'\<rparr>)
           \<and> run_direct (wrapped_fun sf) args w
               = (Inr (map_pytree (\<lambda>a. Arr (Concrete a)) out),
                  \<lparr>cells = h', fun_calls = Suc (fun_calls w)\<rparr>)"
proof -
  have d: "distinct sts" using key fresh traced sts by (rule traced_states_distinct)
  from conc have m: "map (cells w) sts = map Concrete vals" by (rule concrete_values_map)
  then have l: "length vals = length sts" by (metis length_map)
  have same: "load_values sts vals (cells w) = cells w" using d m by (rule load_values_same)
  from replay_simulates_direct[OF key fresh traced sts l, of "cells w" "fun_calls w"]
  obtain new_vals out h' where
    j: "jaxpr_call sf' vals args = Inr (map Leaf new_vals, out)"
    and r: "run_direct (wrapped_fun sf) args \<lparr>cells = cells w, fun_calls = fun_calls w\<rparr>
             = (Inr (map_pytree (\<lambda>a. Arr (Concrete a)) out), \<lparr>cells = h', fun_calls = Suc (fun_calls w)\<rparr>)"
    and h: "map h' sts = map Concrete new_vals" "\<forall>c. c \<notin> set sts \<longrightarrow> h' c = cells w c"
    unfolding same by blast
  have h': "h' = load_values sts new_vals (cells w)" using d h by (rule load_values_unique)
  have k': "get_arg_cache_key (cache_type sf') (static_argnums sf') args = Inr key"
    using key make_jaxpr_keeps_config[OF key fresh traced] by simp
  from h have "length new_vals = length sts" by (metis length_map)
  from write_back_leaves[OF this] k' sts conc j
  have "jaxpr_call_auto sf' args w = (Inr out, w\<lparr>cells := h'\<rparr>)"
    by (simp add: jaxpr_call_auto_def h')
  moreover have "run_direct (wrapped_fun sf) args w
               = (Inr (map_pytree (\<lambda>a. Arr (Concrete a)) out),
                  \<lparr>cells = h', fun_calls = Suc (fun_calls w)\<rparr>)"
    using r by (simp add: run_direct_def)
  ultimately show ?thesis by blast
qed



theorem replay_auto_writes_back_witness:
  "jaxpr_call_auto (fst (snd (make_jaxpr (new_wrapper scenario_fun) [5] scenario_world))) [5]
     \<lparr>cells = (\<lambda>c. Concrete 10), fun_calls = 1\<rparr>
   = (Inr (Node []), \<lparr>cells = load_values [0] [15] (\<lambda>c. Concrete 10), fun_calls = 1\<rparr>)"
proof -
  let ?sf' = "fst (snd (make_jaxpr (new_wrapper scenario_fun) [5] scenario_world))"
  let ?w = "\<lparr>cells = (\<lambda>c. Concrete 10), fun_calls = 1\<rparr>"
  have k: "get_arg_cache_key (cache_type ?sf') (static_argnums ?sf') [5] = Inr (StaticKey [])"
    and s: "get_states ?sf' (StaticKey []) = Inr [0]"
    and c: "concrete_values (map (cells ?w) [0]) = Inr [10]"
    and j: "jaxpr_call ?sf' [10] [5] = Inr (map Leaf [15], Node [])"
    unfolding scenario_traced
    by (simp_all add: jaxpr_call_def get_arg_cache_key_def get_states_def
        get_jaxpr_def get_out_treedef_def eval_jaxpr_def unflatten_def dynamic_by_position_def
        new_wrapper_def upt_rec)
  from replay_auto_writes_back [of ?sf' "[5]" "StaticKey []" "[0]" ?w "[10]" "[15]" "Node []"] k s c j
  show ?thesis by simp
qed

end
